theory Spec2Isabelle
  imports Main "HOL-Library.Monad_Syntax"
begin

section \<open>Entity model of the graph hierarchy (hierarchy.ts)\<close>

text \<open>
  Objects of the hierarchy are addressed by their name: the source registers every node
  in \<open>Hierarchy.index\<close> under its name (\<open>setNode\<close>), and a \<open>parentNode\<close> reference is
  kept here as the name of the parent.  A graphlib graph keeps its node names and its
  edges in insertion order; the label of a graph node is the object the index holds
  under that name.  JavaScript strings are written as \<open>string\<close>, numbers that count as
  \<open>nat\<close>.
\<close>

datatype NodeType = META | OP | SERIES | BRIDGE | ELLIPSIS

datatype SeriesGroupingType = GROUP | UNGROUP

datatype error =
    CouldNotFindNodeInHierarchy string
  | CouldNotFindNodeWithName string
  | CouldNotFindImmediateChild string
  | NoDifferenceBetweenAncestorPaths
  | BridgegraphOfParentIsNull string
  | NotAnObject string

record BaseEdge =
  edge_v :: string
  edge_w :: string
  isControlDependency :: bool
  isReferenceEdge :: bool
  outputTensorKey :: string

record Metaedge =
  meta_v :: string
  meta_w :: string
  baseEdgeList :: "BaseEdge list"
  inbound :: "bool option"
  numRegularEdges :: nat
  numControlEdges :: nat
  numRefEdges :: nat

text \<open>
  Modelled from the spec: \<open>createMetaedge\<close> and \<open>MetaedgeImpl.addBaseEdge\<close> live in
  graph.ts, which is not among the sources.  A Metaedge holds the ordered list of the
  BaseEdges it summarizes and a derived count of the non-control ones; the size
  statistic used for rendering thickness is left out.
\<close>

definition createMetaedge :: "string \<Rightarrow> string \<Rightarrow> Metaedge" where
  "createMetaedge a b =
     \<lparr>meta_v = a, meta_w = b, baseEdgeList = [], inbound = None,
      numRegularEdges = 0, numControlEdges = 0, numRefEdges = 0\<rparr>"

definition addBaseEdge :: "BaseEdge \<Rightarrow> Metaedge \<Rightarrow> Metaedge" where
  "addBaseEdge e m =
     m\<lparr>baseEdgeList := baseEdgeList m @ [e],
       numRegularEdges := (if isControlDependency e then numRegularEdges m
                           else numRegularEdges m + 1),
       numControlEdges := (if isControlDependency e then numControlEdges m + 1
                           else numControlEdges m),
       numRefEdges := (if isReferenceEdge e then numRefEdges m + 1 else numRefEdges m)\<rparr>"

subsection \<open>graphlib graphs\<close>

record Graph =
  gnodes :: "string list"
  gedges :: "((string \<times> string) \<times> Metaedge) list"

definition createGraph :: Graph where
  "createGraph = \<lparr>gnodes = [], gedges = []\<rparr>"

definition hasNode :: "Graph \<Rightarrow> string \<Rightarrow> bool" where
  "hasNode g n = (n \<in> set (gnodes g))"

definition setNode_g :: "string \<Rightarrow> Graph \<Rightarrow> Graph" where
  "setNode_g n g = (if n \<in> set (gnodes g) then g else g\<lparr>gnodes := gnodes g @ [n]\<rparr>)"

definition removeNode_g :: "string \<Rightarrow> Graph \<Rightarrow> Graph" where
  "removeNode_g n g =
     g\<lparr>gnodes := filter (\<lambda>x. x \<noteq> n) (gnodes g),
       gedges := filter (\<lambda>(k, m). fst k \<noteq> n \<and> snd k \<noteq> n) (gedges g)\<rparr>"

definition edge_g :: "Graph \<Rightarrow> string \<Rightarrow> string \<Rightarrow> Metaedge option" where
  "edge_g g a b = map_of (gedges g) (a, b)"

fun upsert :: "'k \<Rightarrow> 'a \<Rightarrow> ('k \<times> 'a) list \<Rightarrow> ('k \<times> 'a) list" where
  "upsert k x [] = [(k, x)]"
| "upsert k x ((k', y) # kvs) =
     (if k' = k then (k, x) # kvs else (k', y) # upsert k x kvs)"

definition setEdge_g :: "string \<Rightarrow> string \<Rightarrow> Metaedge \<Rightarrow> Graph \<Rightarrow> Graph" where
  "setEdge_g a b m g =
     (if map_of (gedges g) (a, b) \<noteq> None then g\<lparr>gedges := upsert (a, b) m (gedges g)\<rparr>
      else (setNode_g b (setNode_g a g))\<lparr>gedges := gedges g @ [((a, b), m)]\<rparr>)"

subsection \<open>Nodes and the hierarchy\<close>

record Embedding =
  emb_name :: string
  emb_compatible :: bool

text \<open>
  Modelled from the spec: \<open>NodeStats\<close> is declared in common.ts, which is not among the
  sources; the spec describes the combination of performance statistics as an
  associative, commutative merge.
\<close>

record NodeStats =
  totalBytes :: nat
  totalMicros :: nat

definition newNodeStats :: NodeStats where
  "newNodeStats = \<lparr>totalBytes = 0, totalMicros = 0\<rparr>"

definition combine :: "NodeStats \<Rightarrow> NodeStats \<Rightarrow> NodeStats" where
  "combine a b = \<lparr>totalBytes = totalBytes a + totalBytes b,
                  totalMicros = totalMicros a + totalMicros b\<rparr>"

record Node =
  name :: string
  ntype :: NodeType
  parentNode :: "string option"
  cardinality :: nat
  stats :: "NodeStats option"
  deviceHistogram :: "string \<rightharpoonup> nat"
  xlaClusterHistogram :: "string \<rightharpoonup> nat"
  compatibleCount :: nat
  incompatibleCount :: nat
  op :: string
  device :: "string option"
  xlaCluster :: "string option"
  compatible :: bool
  inEmbeddings :: "Embedding list"
  outEmbeddings :: "Embedding list"
  owningSeries :: "string option"
  metagraph :: Graph
  bridgegraph :: "Graph option"
  hasNonControlEdges :: bool
  prefix :: string
  suffix :: string
  parent :: string
  clusterId :: "nat option"
  ids :: "nat list"

text \<open>
  \<open>isGroupNode\<close> is a constant of each node class: true for Metanode and SeriesNode,
  false for OpNode; the same classes are the ones that carry a \<open>metagraph\<close> field.
\<close>

definition isGroupNode :: "Node \<Rightarrow> bool" where
  "isGroupNode n = (ntype n = META \<or> ntype n = SERIES)"

definition has_metagraph :: "Node \<Rightarrow> bool" where
  "has_metagraph n = (ntype n = META \<or> ntype n = SERIES)"

record Hierarchy =
  root :: string
  index :: "string \<rightharpoonup> Node"
  orderings :: "string \<rightharpoonup> (string \<rightharpoonup> nat)"
  devices :: "string list option"
  xlaClusters :: "string list option"

definition setNode :: "string \<Rightarrow> Node \<Rightarrow> Hierarchy \<Rightarrow> Hierarchy" where
  "setNode k n h = h\<lparr>index := (index h)(k \<mapsto> n)\<rparr>"

text \<open>Counting in a histogram: \<open>(histogram[key] || 0) + 1\<close>.\<close>

definition increment :: "(string \<rightharpoonup> nat) \<Rightarrow> string \<Rightarrow> (string \<rightharpoonup> nat)" where
  "increment hist k = hist(k \<mapsto> (case hist k of None \<Rightarrow> 0 | Some c \<Rightarrow> c) + 1)"

section \<open>Ordering engine: getTopologicalOrdering\<close>

text \<open>
  \<open>successors\<close> and \<open>destinations\<close> are objects used as dictionaries; their keys are
  kept in insertion order.
\<close>

type_synonym succs = "(string \<times> string list) list"

fun push_entry :: "string \<Rightarrow> string \<Rightarrow> succs \<Rightarrow> succs" where
  "push_entry a b [] = [(a, [b])]"
| "push_entry a b ((k, ws) # kvs) =
     (if k = a then (k, ws @ [b]) # kvs else (k, ws) # push_entry a b kvs)"

definition delete_key :: "string \<Rightarrow> succs \<Rightarrow> succs" where
  "delete_key k kvs = filter (\<lambda>p. fst p \<noteq> k) kvs"

definition succs_of :: "succs \<Rightarrow> string \<Rightarrow> string list" where
  "succs_of kvs k = (case map_of kvs k of None \<Rightarrow> [] | Some ws \<Rightarrow> ws)"

fun collect_edges ::
  "((string \<times> string) \<times> Metaedge) list \<Rightarrow> succs \<times> string list \<Rightarrow> succs \<times> string list" where
  "collect_edges [] acc = acc"
| "collect_edges (((a, b), m) # es) (successors, destinations) =
     (if numRegularEdges m = 0 then collect_edges es (successors, destinations)
      else collect_edges es
             (push_entry a b successors,
              (if b \<in> set destinations then destinations else destinations @ [b])))"

definition weight :: "succs \<Rightarrow> nat" where
  "weight kvs = sum_list (map (\<lambda>p. length (snd p)) kvs)"

lemma weight_delete_key: "weight (delete_key k kvs) + length (succs_of kvs k) \<le> weight kvs"
proof (induction kvs)
  case Nil
  then show ?case by (simp add: weight_def delete_key_def succs_of_def)
next
  case (Cons p kvs)
  show ?case
  proof (cases "fst p = k")
    case True
    have "weight (delete_key k kvs) \<le> weight kvs"
      using Cons.IH by simp
    with True show ?thesis
      by (cases p) (simp add: weight_def delete_key_def succs_of_def)
  next
    case False
    with Cons.IH show ?thesis
      by (cases p) (simp add: weight_def delete_key_def succs_of_def)
  qed
qed

function traverse ::
  "succs \<Rightarrow> string list \<Rightarrow> (string \<rightharpoonup> nat) \<Rightarrow> nat \<Rightarrow> (string \<rightharpoonup> nat)" where
  "traverse successors [] ordmap idx = ordmap"
| "traverse successors (childName # queue) ordmap idx =
     traverse (delete_key childName successors)
              (queue @ succs_of successors childName)
              (ordmap(childName \<mapsto> idx)) (idx + 1)"
  by pat_completeness auto
termination
proof (relation "measure (\<lambda>(s, q, ordmap, idx). weight s + length q)")
  show "wf (measure (\<lambda>(s, q, ordmap, idx). weight s + length q))" by simp
next
  fix successors :: succs and childName :: string and queue :: "string list"
    and ordmap :: "string \<rightharpoonup> nat" and idx :: nat
  show "((delete_key childName successors, queue @ succs_of successors childName,
          ordmap(childName \<mapsto> idx), idx + 1),
         (successors, childName # queue, ordmap, idx))
        \<in> measure (\<lambda>(s, q, ordmap, idx). weight s + length q)"
    using weight_delete_key[of childName successors] by simp
qed

definition ordering_of :: "Graph \<Rightarrow> (string \<rightharpoonup> nat)" where
  "ordering_of mg =
     (let (successors, destinations) = collect_edges (gedges mg) ([], []);
          queue = filter (\<lambda>k. k \<notin> set destinations) (map fst successors)
      in traverse successors queue Map.empty 0)"

definition getTopologicalOrdering ::
  "Hierarchy \<Rightarrow> string \<Rightarrow> error + ((string \<rightharpoonup> nat) option \<times> Hierarchy)" where
  "getTopologicalOrdering h nodeName =
     (case index h nodeName of
        None \<Rightarrow> Inl (CouldNotFindNodeWithName nodeName)
      | Some node \<Rightarrow>
          if \<not> isGroupNode node then Inr (None, h)
          else (case orderings h nodeName of
                  Some cached \<Rightarrow> Inr (Some cached, h)
                | None \<Rightarrow>
                    let ordmap = ordering_of (metagraph node)
                    in Inr (Some ordmap, h\<lparr>orderings := (orderings h)(nodeName \<mapsto> ordmap)\<rparr>)))"


section \<open>Edge builder: addEdges\<close>

record SlimGraph =
  slim_nodes :: "string list"
  slim_edges :: "BaseEdge list"

text \<open>
  \<open>graph.nodes[name]\<close>: the OpNode of the flat graph under that name, which is the
  object the index holds, or undefined.
\<close>

definition flat_node :: "SlimGraph \<Rightarrow> (string \<rightharpoonup> Node) \<Rightarrow> string \<Rightarrow> Node option" where
  "flat_node graph idx n = (if n \<in> set (slim_nodes graph) then idx n else None)"

text \<open>
  \<open>getPath\<close> collects the names from the node up to the top.  The names are written
  over the front of a buffer that is reused from edge to edge, so entries of a longer
  earlier path stay behind the last one written.  A walk that never ends is \<open>None\<close>.
\<close>

partial_function (option) ancestor_names ::
  "(string \<rightharpoonup> Node) \<Rightarrow> Node option \<Rightarrow> string list option" where
  "ancestor_names idx node =
     (case node of
        None \<Rightarrow> Some []
      | Some nd \<Rightarrow>
          Option.bind
            (ancestor_names idx (case parentNode nd of None \<Rightarrow> None | Some p \<Rightarrow> idx p))
            (\<lambda>rest. Some (name nd # rest)))"

definition getPath ::
  "(string \<rightharpoonup> Node) \<Rightarrow> Node option \<Rightarrow> string list \<Rightarrow> (nat \<times> string list) option" where
  "getPath idx node path =
     (case ancestor_names idx node of
        None \<Rightarrow> None
      | Some names \<Rightarrow> Some (length names, names @ drop (length names) path))"

text \<open>
  The search for the highest entries that differ.  \<open>getPath\<close> reports the number of
  names written, one more than the index the source returns, so that \<open>-1\<close> is \<open>0\<close>
  here; \<open>findDifference\<close> works on the indices themselves.  Reading a buffer behind
  its end gives \<open>undefined\<close>, which as a key of the index is the string of that name.
\<close>

function findDifference ::
  "string list \<Rightarrow> string list \<Rightarrow> nat \<Rightarrow> nat \<Rightarrow> error + nat \<times> nat" where
  "findDifference sourcePath destPath si di =
     (if sourcePath ! si = destPath ! di then
        (if si = 0 \<or> di = 0 then Inl NoDifferenceBetweenAncestorPaths
         else findDifference sourcePath destPath (si - 1) (di - 1))
      else Inr (si, di))"
  by pat_completeness auto
termination
  by (relation "measure (\<lambda>(sp, dp, si, di). si)") auto

declare findDifference.simps [simp del]

definition attachEdge :: "BaseEdge \<Rightarrow> string \<Rightarrow> string \<Rightarrow> Node \<Rightarrow> Node" where
  "attachEdge baseEdge sourceAncestorName destAncestorName sharedAncestorNode =
     (let mg = metagraph sharedAncestorNode;
          metaedge = (case edge_g mg sourceAncestorName destAncestorName of
                        None \<Rightarrow> createMetaedge sourceAncestorName destAncestorName
                      | Some m \<Rightarrow> m)
      in sharedAncestorNode
           \<lparr>metagraph := setEdge_g sourceAncestorName destAncestorName
                            (addBaseEdge baseEdge metaedge) mg,
            hasNonControlEdges :=
              (if \<not> hasNonControlEdges sharedAncestorNode \<and> \<not> isControlDependency baseEdge
               then True else hasNonControlEdges sharedAncestorNode)\<rparr>)"

record EdgeState =
  hier :: Hierarchy
  sourcePath :: "string list"
  destPath :: "string list"

definition addEdge :: "SlimGraph \<Rightarrow> BaseEdge \<Rightarrow> EdgeState \<Rightarrow> (error + EdgeState) option" where
  "addEdge graph baseEdge st =
     (let nodeIndex = index (hier st)
      in case getPath nodeIndex (flat_node graph nodeIndex (edge_v baseEdge)) (sourcePath st) of
           None \<Rightarrow> None
         | Some (sn, sp) \<Rightarrow>
             (case getPath nodeIndex (flat_node graph nodeIndex (edge_w baseEdge)) (destPath st) of
                None \<Rightarrow> None
              | Some (dn, dp) \<Rightarrow>
                  let st1 = st\<lparr>sourcePath := sp, destPath := dp\<rparr>
                  in if sn = 0 \<or> dn = 0 then Some (Inr st1)
                     else (case findDifference sp dp (sn - 1) (dn - 1) of
                             Inl e \<Rightarrow> Some (Inl e)
                           | Inr (si, di) \<Rightarrow>
                               let sharedName = (if si + 1 < length sp then sp ! (si + 1)
                                                 else ''undefined'')
                               in (case nodeIndex sharedName of
                                     None \<Rightarrow> Some (Inl (NotAnObject ''sharedAncestorNode''))
                                   | Some sharedAncestorNode \<Rightarrow>
                                       if \<not> has_metagraph sharedAncestorNode
                                       then Some (Inl (NotAnObject ''metagraph''))
                                       else Some (Inr (st1\<lparr>hier :=
                                              setNode sharedName
                                                (attachEdge baseEdge (sp ! si) (dp ! di) sharedAncestorNode)
                                                (hier st)\<rparr>))))))"

fun addEdges_loop :: "SlimGraph \<Rightarrow> BaseEdge list \<Rightarrow> EdgeState \<Rightarrow> (error + EdgeState) option" where
  "addEdges_loop graph [] st = Some (Inr st)"
| "addEdges_loop graph (baseEdge # rest) st =
     (case addEdge graph baseEdge st of
        None \<Rightarrow> None
      | Some (Inl e) \<Rightarrow> Some (Inl e)
      | Some (Inr st') \<Rightarrow> addEdges_loop graph rest st')"

definition addEdges :: "Hierarchy \<Rightarrow> SlimGraph \<Rightarrow> (error + Hierarchy) option" where
  "addEdges h graph =
     map_option (map_sum id hier)
       (addEdges_loop graph (slim_edges graph) \<lparr>hier = h, sourcePath = [], destPath = []\<rparr>)"

text \<open>
  The spec's words for the place of an edge: walk both ancestor chains from the root
  end inward while they agree; the node one step before the divergence is the lowest
  common container, the two entries after it are its children on the two sides.
  \<open>root_first\<close> are the chains written from the root down.
\<close>

fun divergence :: "string list \<Rightarrow> string list \<Rightarrow> string option \<Rightarrow> (string \<times> string \<times> string) option" where
  "divergence (x # xs) (y # ys) common =
     (if x = y then divergence xs ys (Some x)
      else (case common of None \<Rightarrow> None | Some c \<Rightarrow> Some (c, x, y)))"
| "divergence [] ys common = None"
| "divergence xs [] common = None"

definition lowest_common :: "SlimGraph \<Rightarrow> (string \<rightharpoonup> Node) \<Rightarrow> BaseEdge \<Rightarrow> (string \<times> string \<times> string) option" where
  "lowest_common graph idx e =
     (case (ancestor_names idx (flat_node graph idx (edge_v e)),
            ancestor_names idx (flat_node graph idx (edge_w e))) of
        (Some ps, Some pd) \<Rightarrow> divergence (rev ps) (rev pd) None
      | _ \<Rightarrow> None)"

section \<open>Bridge router: getBridgegraph\<close>

text \<open>
  \<open>getChildName\<close> walks up the parent references from the descendant.  The walk ends
  with the name of the first node whose parent is the container (\<open>Some (Some n)\<close>), or
  runs off the top (\<open>Some None\<close>), after which the error is thrown; on a cyclic chain
  of parents it never returns, which is the value \<open>None\<close> here.
\<close>

partial_function (option) getChildName_loop ::
  "(string \<rightharpoonup> Node) \<Rightarrow> string \<Rightarrow> Node option \<Rightarrow> string option option" where
  "getChildName_loop idx nodeName currentNode =
     (case currentNode of
        None \<Rightarrow> Some None
      | Some cur \<Rightarrow>
          (case parentNode cur of
             None \<Rightarrow> Some None
           | Some p \<Rightarrow>
               if p = nodeName then Some (Some (name cur))
               else getChildName_loop idx nodeName (idx p)))"

definition getChildName ::
  "(string \<rightharpoonup> Node) \<Rightarrow> string \<Rightarrow> string \<Rightarrow> (error + string) option" where
  "getChildName idx nodeName descendantName =
     (case getChildName_loop idx nodeName (idx descendantName) of
        None \<Rightarrow> None
      | Some None \<Rightarrow> Some (Inl (CouldNotFindImmediateChild descendantName))
      | Some (Some childName) \<Rightarrow> Some (Inr childName))"

text \<open>
  The body of the innermost loop: one BaseEdge of a parent-level Metaedge is copied into
  the Metaedge of the bridgegraph between the immediate child and the other side, which
  is created on first use.
\<close>

definition bridgeBaseEdge ::
  "bool \<Rightarrow> string \<Rightarrow> string \<Rightarrow> BaseEdge \<Rightarrow> Graph \<Rightarrow> Graph" where
  "bridgeBaseEdge inb childName otherName baseEdge bg =
     (let bv = (if inb then otherName else childName);
          bw = (if inb then childName else otherName)
      in case edge_g bg bv bw of
           None \<Rightarrow> setEdge_g bv bw (addBaseEdge baseEdge ((createMetaedge bv bw)\<lparr>inbound := Some inb\<rparr>)) bg
         | Some bridgeMetaedge \<Rightarrow> bg\<lparr>gedges := upsert (bv, bw) (addBaseEdge baseEdge bridgeMetaedge) (gedges bg)\<rparr>)"

fun bridgeBaseEdges ::
  "(string \<rightharpoonup> Node) \<Rightarrow> string \<Rightarrow> bool \<Rightarrow> string \<times> string \<Rightarrow> BaseEdge list \<Rightarrow> Graph
     \<Rightarrow> (error + Graph) option" where
  "bridgeBaseEdges idx nodeName inb parentEdgeObj [] bg = Some (Inr bg)"
| "bridgeBaseEdges idx nodeName inb parentEdgeObj (baseEdge # rest) bg =
     (let descendantName = (if inb then edge_w baseEdge else edge_v baseEdge);
          otherName = (if inb then fst parentEdgeObj else snd parentEdgeObj)
      in case getChildName idx nodeName descendantName of
           None \<Rightarrow> None
         | Some (Inl e) \<Rightarrow> Some (Inl e)
         | Some (Inr childName) \<Rightarrow>
             bridgeBaseEdges idx nodeName inb parentEdgeObj rest
               (bridgeBaseEdge inb childName otherName baseEdge bg))"

text \<open>
  One of the two passes over a parent graph.  The edge objects are listed when the pass
  starts; the Metaedge of each is read when its turn comes.  The parent graph is a
  graph of its own (\<open>Some pg\<close>), or the very bridgegraph under construction (\<open>None\<close>),
  which happens only for a node that is its own parent.
\<close>

fun bridgeParentEdges ::
  "(string \<rightharpoonup> Node) \<Rightarrow> string \<Rightarrow> Graph option \<Rightarrow> (string \<times> string) list \<Rightarrow> Graph
     \<Rightarrow> (error + Graph) option" where
  "bridgeParentEdges idx nodeName parentGraph [] bg = Some (Inr bg)"
| "bridgeParentEdges idx nodeName parentGraph (parentEdgeObj # rest) bg =
     (let inb = (snd parentEdgeObj = nodeName);
          pg = (case parentGraph of None \<Rightarrow> bg | Some g \<Rightarrow> g);
          bases = (case edge_g pg (fst parentEdgeObj) (snd parentEdgeObj) of
                     None \<Rightarrow> [] | Some parentMetaedge \<Rightarrow> baseEdgeList parentMetaedge)
      in case bridgeBaseEdges idx nodeName inb parentEdgeObj bases bg of
           None \<Rightarrow> None
         | Some (Inl e) \<Rightarrow> Some (Inl e)
         | Some (Inr bg') \<Rightarrow> bridgeParentEdges idx nodeName parentGraph rest bg')"

definition bridgeParentGraph ::
  "(string \<rightharpoonup> Node) \<Rightarrow> string \<Rightarrow> Graph option \<Rightarrow> Graph \<Rightarrow> (error + Graph) option" where
  "bridgeParentGraph idx nodeName parentGraph bg =
     (let pg = (case parentGraph of None \<Rightarrow> bg | Some g \<Rightarrow> g)
      in bridgeParentEdges idx nodeName parentGraph
           (filter (\<lambda>e. fst e = nodeName \<or> snd e = nodeName) (map fst (gedges pg))) bg)"

definition set_bridgegraph :: "string \<Rightarrow> Graph \<Rightarrow> Hierarchy \<Rightarrow> Hierarchy" where
  "set_bridgegraph nodeName bg h =
     h\<lparr>index := (index h)(nodeName := map_option (\<lambda>n. n\<lparr>bridgegraph := Some bg\<rparr>) (index h nodeName))\<rparr>"

definition fillBridgegraph ::
  "string \<Rightarrow> string \<Rightarrow> Graph \<Rightarrow> error + Graph option \<times> Hierarchy
     \<Rightarrow> (error + Graph option \<times> Hierarchy) option" where
  "fillBridgegraph nodeName pname parentMetagraph parentResult =
     (case parentResult of
        Inl e \<Rightarrow> Some (Inl e)
      | Inr (None, h) \<Rightarrow> Some (Inl (BridgegraphOfParentIsNull pname))
      | Inr (Some parentBridgegraph, h) \<Rightarrow>
          (case bridgeParentGraph (index h) nodeName (Some parentMetagraph) createGraph of
             None \<Rightarrow> None
           | Some (Inl e) \<Rightarrow> Some (Inl e)
           | Some (Inr bg1) \<Rightarrow>
               (case bridgeParentGraph (index h) nodeName
                       (if pname = nodeName then None else Some parentBridgegraph) bg1 of
                  None \<Rightarrow> None
                | Some (Inl e) \<Rightarrow> Some (Inl e)
                | Some (Inr bg2) \<Rightarrow> Some (Inr (Some bg2, set_bridgegraph nodeName bg2 h)))))"

text \<open>
  \<open>getBridgegraph\<close>: the lookup, the test for a group node, the cached result, and
  otherwise the construction from the parent's metagraph and the parent's bridgegraph.
  The empty bridgegraph is stored in the node before the parent is asked for its own.
  A parent reference to an object the index does not hold makes the recursive request
  fail with the lookup error; a request that never returns is \<open>None\<close>.
\<close>

partial_function (option) getBridgegraph ::
  "string \<Rightarrow> Hierarchy \<Rightarrow> (error + Graph option \<times> Hierarchy) option" where
  "getBridgegraph nodeName h =
     (case index h nodeName of
        None \<Rightarrow> Some (Inl (CouldNotFindNodeInHierarchy nodeName))
      | Some node \<Rightarrow>
          if \<not> has_metagraph node then Some (Inr (None, h))
          else (case bridgegraph node of
                  Some cached \<Rightarrow> Some (Inr (Some cached, h))
                | None \<Rightarrow>
                    let h1 = set_bridgegraph nodeName createGraph h
                    in (case parentNode node of
                          None \<Rightarrow> Some (Inr (Some createGraph, h1))
                        | Some pname \<Rightarrow>
                            (case index h1 pname of
                               None \<Rightarrow> Some (Inl (CouldNotFindNodeInHierarchy pname))
                             | Some parentN \<Rightarrow>
                                 if \<not> has_metagraph parentN then Some (Inr (Some createGraph, h1))
                                 else Option.bind (getBridgegraph pname h1)
                                        (fillBridgegraph nodeName pname (metagraph parentN))))))"

section \<open>Series detector\<close>

text \<open>
  Dictionaries whose keys are iterated are association lists in insertion order (a
  JavaScript object lists keys that are canonical array indices first; node, op and
  series names of that shape are not treated specially here).  Numbers read from digit
  strings are \<open>nat\<close>.
\<close>

record HierarchyParams =
  verifyTemplate :: bool
  seriesNodeMinSize :: int
  seriesMap :: "string \<rightharpoonup> SeriesGroupingType"
  rankDirection :: string
  useGeneralizedSeriesPatterns :: bool

text \<open>
  \<open>getSeriesNodeName\<close> is declared in graph.ts, which is not among the sources; the
  functions below take it as the parameter \<open>nm\<close>: prefix, suffix, parent path and,
  when given, the first and last id.
\<close>

type_synonym naming = "string \<Rightarrow> string \<Rightarrow> string \<Rightarrow> (nat \<times> nat) option \<Rightarrow> string"

text \<open>
  Modelled from the spec: \<open>createSeriesNode\<close> is declared in graph.ts.  A fresh
  SeriesNode carries prefix, suffix, parent path, cluster id and name, no ids yet, an
  empty metagraph, empty histograms and no parent.
\<close>

definition createSeriesNode :: "string \<Rightarrow> string \<Rightarrow> string \<Rightarrow> nat option \<Rightarrow> string \<Rightarrow> Node" where
  "createSeriesNode pre suf par cid n =
     \<lparr>name = n, ntype = SERIES, parentNode = None, cardinality = 0, stats = None,
      deviceHistogram = Map.empty, xlaClusterHistogram = Map.empty,
      compatibleCount = 0, incompatibleCount = 0, op = [], device = None,
      xlaCluster = None, compatible = False, inEmbeddings = [], outEmbeddings = [],
      owningSeries = None, metagraph = createGraph, bridgegraph = None,
      hasNonControlEdges = False, prefix = pre, suffix = suf, parent = par,
      clusterId = cid, ids = []\<rparr>"

text \<open>\<open>graph.node(n)\<close>: the label of a node of the graph, undefined for any other name.\<close>

definition node_g :: "Graph \<Rightarrow> (string \<rightharpoonup> Node) \<Rightarrow> string \<Rightarrow> Node option" where
  "node_g g idx n = (if n \<in> set (gnodes g) then idx n else None)"

subsection \<open>clusterNodes\<close>

fun clusterNodes_loop ::
  "Graph \<Rightarrow> (string \<rightharpoonup> Node) \<Rightarrow> string list \<Rightarrow> (string \<times> string list) list
     \<Rightarrow> error + (string \<times> string list) list" where
  "clusterNodes_loop mg idx [] clusters = Inr clusters"
| "clusterNodes_loop mg idx (n # rest) clusters =
     (case node_g mg idx n of
        None \<Rightarrow> Inl (NotAnObject n)
      | Some child \<Rightarrow>
          if ntype child = META then clusterNodes_loop mg idx rest clusters
          else if op child \<noteq> [] then
            clusterNodes_loop mg idx rest (push_entry (op child) (name child) clusters)
          else clusterNodes_loop mg idx rest clusters)"

definition clusterNodes ::
  "Graph \<Rightarrow> (string \<rightharpoonup> Node) \<Rightarrow> error + (string \<times> string list) list" where
  "clusterNodes mg idx = clusterNodes_loop mg idx (gnodes mg) []"

subsection \<open>Names and numbers\<close>

definition is_digit :: "char \<Rightarrow> bool" where
  "is_digit c = (c \<in> set ''0123456789'')"

definition digit_value :: "char \<Rightarrow> nat" where
  "digit_value c = of_char c - 48"

definition to_number :: "string \<Rightarrow> nat" where
  "to_number ds = foldl (\<lambda>a c. 10 * a + digit_value c) 0 ds"

text \<open>
  \<open>+clusterId\<close> for an op name: the number for a string of decimal digits, NaN (\<open>None\<close>)
  for any other op name met in practice.
\<close>

definition op_number :: "string \<Rightarrow> nat option" where
  "op_number s = (if s \<noteq> [] \<and> list_all is_digit s then Some (to_number s) else None)"

text \<open>The last segment of \<open>name.split('/')\<close> and the other segments joined again.\<close>

definition leaf_of :: "string \<Rightarrow> string" where
  "leaf_of n = rev (takeWhile (\<lambda>c. c \<noteq> CHR ''/'') (rev n))"

definition parent_of :: "string \<Rightarrow> string" where
  "parent_of n = rev (drop 1 (dropWhile (\<lambda>c. c \<noteq> CHR ''/'') (rev n)))"

definition isGroup :: "string \<Rightarrow> bool" where
  "isGroup n = (n \<noteq> [] \<and> last n = CHR ''*'')"

text \<open>
  The pattern \<open>^(\D*)_(\d+)$\<close>: the leaf ends in a run of digits, an underscore stands
  before the run, and nothing before the underscore is a digit.
\<close>

definition match_suffix :: "string \<Rightarrow> (string \<times> string) option" where
  "match_suffix leaf =
     (let ds = takeWhile is_digit (rev leaf)
      in case dropWhile is_digit (rev leaf) of
           [] \<Rightarrow> None
         | u # before \<Rightarrow>
             if ds \<noteq> [] \<and> u = CHR ''_'' \<and> list_all (\<lambda>c. \<not> is_digit c) before
             then Some (rev before, rev ds) else None)"

text \<open>
  The SeriesNode objects that the detectors create for single members serve as records
  of prefix, suffix, parent path, numeric id and member name.
\<close>

record Candidate =
  cand_prefix :: string
  cand_suffix :: string
  cand_parent :: string
  cand_clusterId :: nat
  cand_name :: string

subsection \<open>addSeriesToDict and the grouping of consecutive ids\<close>

definition addSeriesToDict ::
  "naming \<Rightarrow> Candidate list \<Rightarrow> (string \<times> Node) list \<Rightarrow> nat option \<Rightarrow> (string \<times> Node) list" where
  "addSeriesToDict nm seriesNodes seriesDict cid =
     (case seriesNodes of
        first # _ # _ \<Rightarrow>
          let curSeriesName = nm (cand_prefix first) (cand_suffix first) (cand_parent first)
                                 (Some (cand_clusterId first, cand_clusterId (last seriesNodes)));
              curSeriesNode = (createSeriesNode (cand_prefix first) (cand_suffix first)
                                 (cand_parent first) cid curSeriesName)
                \<lparr>ids := map cand_clusterId seriesNodes,
                 metagraph := foldl (\<lambda>g c. setNode_g (cand_name c) g) createGraph seriesNodes\<rparr>
          in upsert curSeriesName curSeriesNode seriesDict
      | _ \<Rightarrow> seriesDict)"

fun group_runs ::
  "naming \<Rightarrow> nat option \<Rightarrow> Candidate list \<Rightarrow> Candidate list \<Rightarrow> (string \<times> Node) list
     \<Rightarrow> (string \<times> Node) list" where
  "group_runs nm cid [] seriesNodes seriesDict = addSeriesToDict nm seriesNodes seriesDict cid"
| "group_runs nm cid (nextNode # rest) seriesNodes seriesDict =
     (if seriesNodes \<noteq> [] \<and> cand_clusterId nextNode = cand_clusterId (last seriesNodes) + 1
      then group_runs nm cid rest (seriesNodes @ [nextNode]) seriesDict
      else group_runs nm cid rest [nextNode] (addSeriesToDict nm seriesNodes seriesDict cid))"

definition series_of_candidates ::
  "naming \<Rightarrow> nat option \<Rightarrow> (string \<times> Candidate list) list \<Rightarrow> (string \<times> Node) list
     \<Rightarrow> (string \<times> Node) list" where
  "series_of_candidates nm cid candidatesDict seriesDict =
     foldl (\<lambda>dict (seriesName, seriesInfoArray).
              if length seriesInfoArray < 2 then dict
              else (case sort_key cand_clusterId seriesInfoArray of
                      [] \<Rightarrow> dict
                    | c0 # rest \<Rightarrow> group_runs nm cid rest [c0] dict))
           seriesDict candidatesDict"

subsection \<open>detectSeriesUsingNumericSuffixes\<close>

fun push_candidate ::
  "string \<Rightarrow> Candidate \<Rightarrow> (string \<times> Candidate list) list \<Rightarrow> (string \<times> Candidate list) list" where
  "push_candidate k c [] = [(k, [c])]"
| "push_candidate k c ((k', cs) # kvs) =
     (if k' = k then (k', cs @ [c]) # kvs else (k', cs) # push_candidate k c kvs)"

definition numeric_candidate :: "naming \<Rightarrow> string \<Rightarrow> string \<times> Candidate" where
  "numeric_candidate nm n =
     (let leaf = leaf_of n;
          par = parent_of n;
          (pre, idn, suf) =
            (case match_suffix leaf of
               Some (front, digits) \<Rightarrow> (front, to_number digits, [])
             | None \<Rightarrow> (if isGroup n then butlast leaf else leaf, 0,
                         if isGroup n then ''*'' else []))
      in (nm pre suf par None,
          \<lparr>cand_prefix = pre, cand_suffix = suf, cand_parent = par, cand_clusterId = idn,
           cand_name = n\<rparr>))"

definition detectSeriesUsingNumericSuffixes ::
  "naming \<Rightarrow> (string \<times> string list) list \<Rightarrow> (string \<times> Node) list" where
  "detectSeriesUsingNumericSuffixes nm clusters =
     foldl (\<lambda>seriesDict (clusterId, members).
              if length members \<le> 1 then seriesDict
              else
                let candidatesDict =
                      foldl (\<lambda>d n. case numeric_candidate nm n of (k, c) \<Rightarrow> push_candidate k c d)
                            [] members
                in series_of_candidates nm (op_number clusterId) candidatesDict seriesDict)
           [] clusters"

subsection \<open>detectSeriesAnywhereInNodeName\<close>

text \<open>All matches of \<open>(\d+)\<close> in a leaf name, each with the index where it starts.\<close>

fun digit_runs :: "string \<Rightarrow> nat \<Rightarrow> (nat \<times> string) option \<Rightarrow> (nat \<times> string) list" where
  "digit_runs [] pos cur = (case cur of None \<Rightarrow> [] | Some r \<Rightarrow> [r])"
| "digit_runs (c # cs) pos cur =
     (if is_digit c then
        digit_runs cs (pos + 1)
          (Some (case cur of None \<Rightarrow> (pos, [c]) | Some (start, ds) \<Rightarrow> (start, ds @ [c])))
      else (case cur of None \<Rightarrow> [] | Some r \<Rightarrow> [r]) @ digit_runs cs (pos + 1) None)"

record Forward =
  fwd_prefix :: string
  fwd_suffix :: string
  fwd_ids :: "nat list"

fun push_forward ::
  "string \<Rightarrow> string \<Rightarrow> string \<Rightarrow> nat \<Rightarrow> (string \<times> Forward) list \<Rightarrow> (string \<times> Forward) list" where
  "push_forward k pre suf idn [] = [(k, \<lparr>fwd_prefix = pre, fwd_suffix = suf, fwd_ids = [idn]\<rparr>)]"
| "push_forward k pre suf idn ((k', f) # kvs) =
     (if k' = k then (k', f\<lparr>fwd_ids := fwd_ids f @ [idn]\<rparr>) # kvs
      else (k', f) # push_forward k pre suf idn kvs)"

fun push_reverse ::
  "string \<Rightarrow> string \<times> nat \<Rightarrow> (string \<times> (string \<times> nat) list) list
     \<Rightarrow> (string \<times> (string \<times> nat) list) list" where
  "push_reverse k x [] = [(k, [x])]"
| "push_reverse k x ((k', xs) # kvs) =
     (if k' = k then (k', xs @ [x]) # kvs else (k', xs) # push_reverse k x kvs)"

text \<open>The triples of prefix, id and suffix that one member name contributes.\<close>

definition anywhere_matches :: "string \<Rightarrow> (string \<times> nat \<times> string) list" where
  "anywhere_matches n =
     (let leaf = leaf_of n
      in case digit_runs leaf 0 None of
           [] \<Rightarrow> [(if isGroup n then butlast leaf else leaf, 0, if isGroup n then ''*'' else [])]
         | runs \<Rightarrow> map (\<lambda>(i, ds). (take i leaf, to_number ds, drop (i + length ds) leaf)) runs)"

definition scan_member ::
  "naming \<Rightarrow> string
     \<Rightarrow> (string \<times> Forward) list \<times> (string \<times> (string \<times> nat) list) list
     \<Rightarrow> (string \<times> Forward) list \<times> (string \<times> (string \<times> nat) list) list" where
  "scan_member nm n dicts =
     foldl (\<lambda>(forwardDict, reverseDict) (pre, idn, suf).
              let seriesName = nm pre suf (parent_of n) None
              in (push_forward seriesName pre suf idn forwardDict,
                  push_reverse n (seriesName, idn) reverseDict))
           dicts (anywhere_matches n)"

definition ids_length :: "(string \<times> Forward) list \<Rightarrow> string \<Rightarrow> nat" where
  "ids_length forwardDict k = (case map_of forwardDict k of None \<Rightarrow> 0 | Some f \<Rightarrow> length (fwd_ids f))"

definition best_candidate ::
  "(string \<times> Forward) list \<Rightarrow> string \<Rightarrow> (string \<times> nat) list \<Rightarrow> (string \<times> Candidate) option" where
  "best_candidate forwardDict n seriesNameIdArray =
     (case sort_key (\<lambda>x. - int (ids_length forwardDict (fst x))) seriesNameIdArray of
        [] \<Rightarrow> None
      | (seriesName, idn) # _ \<Rightarrow>
          (case map_of forwardDict seriesName of
             None \<Rightarrow> None
           | Some f \<Rightarrow>
               Some (seriesName,
                     \<lparr>cand_prefix = fwd_prefix f, cand_suffix = fwd_suffix f,
                      cand_parent = parent_of n, cand_clusterId = idn, cand_name = n\<rparr>)))"

definition detectSeriesAnywhereInNodeName ::
  "naming \<Rightarrow> (string \<times> string list) list \<Rightarrow> (string \<times> Node) list" where
  "detectSeriesAnywhereInNodeName nm clusters =
     foldl (\<lambda>seriesDict (clusterId, members).
              if length members \<le> 1 then seriesDict
              else
                let (forwardDict, reverseDict) = foldl (\<lambda>d n. scan_member nm n d) ([], []) members;
                    candidatesDict =
                      foldl (\<lambda>d (n, seriesNameIdArray).
                               case best_candidate forwardDict n seriesNameIdArray of
                                 None \<Rightarrow> d
                               | Some (k, c) \<Rightarrow> push_candidate k c d)
                            [] reverseDict
                in series_of_candidates nm (op_number clusterId) candidatesDict seriesDict)
           [] clusters"

subsection \<open>groupSeries\<close>

record SeriesState =
  shier :: Hierarchy
  seriesNames :: "string \<rightharpoonup> string"
  smap :: "string \<rightharpoonup> SeriesGroupingType"

definition update_node :: "string \<Rightarrow> (Node \<Rightarrow> Node) \<Rightarrow> Hierarchy \<Rightarrow> Hierarchy" where
  "update_node k f h = h\<lparr>index := (index h)(k := map_option f (index h k))\<rparr>"

definition metagraph_of :: "Hierarchy \<Rightarrow> string \<Rightarrow> Graph" where
  "metagraph_of h k = (case index h k of None \<Rightarrow> createGraph | Some n \<Rightarrow> metagraph n)"

text \<open>The first loop over the members of a series: each member still without an owner is stamped.\<close>

fun stamp_members :: "string \<Rightarrow> string \<Rightarrow> string list \<Rightarrow> Hierarchy \<Rightarrow> error + Hierarchy" where
  "stamp_members metanodeName seriesName [] h = Inr h"
| "stamp_members metanodeName seriesName (n # rest) h =
     (case node_g (metagraph_of h metanodeName) (index h) n of
        None \<Rightarrow> Inl (NotAnObject n)
      | Some child \<Rightarrow>
          stamp_members metanodeName seriesName rest
            (if owningSeries child = None \<or> owningSeries child = Some []
             then update_node n (\<lambda>c. c\<lparr>owningSeries := Some seriesName\<rparr>) h
             else h))"

definition count_compatibility :: "Node \<Rightarrow> Node \<Rightarrow> Node" where
  "count_compatibility child seriesNode =
     (let flags = compatible child # map emb_compatible (inEmbeddings child)
                    @ map emb_compatible (outEmbeddings child)
      in seriesNode\<lparr>compatibleCount := compatibleCount seriesNode + length (filter id flags),
                     incompatibleCount := incompatibleCount seriesNode + length (filter Not flags)\<rparr>)"

definition absorb_member :: "Node \<Rightarrow> string \<Rightarrow> Node \<Rightarrow> Node" where
  "absorb_member child n seriesNode =
     (let s1 = seriesNode\<lparr>metagraph := setNode_g n (metagraph seriesNode),
                          parentNode := parentNode child,
                          cardinality := cardinality seriesNode + 1\<rparr>;
          s2 = (case device child of
                  None \<Rightarrow> s1
                | Some d \<Rightarrow> s1\<lparr>deviceHistogram := increment (deviceHistogram s1) d\<rparr>);
          s3 = (case xlaCluster child of
                  None \<Rightarrow> s2
                | Some c \<Rightarrow> s2\<lparr>xlaClusterHistogram := increment (xlaClusterHistogram s2) c\<rparr>)
      in count_compatibility child s3)"

text \<open>The second loop over the members, for a series that is grouped.\<close>

fun move_members :: "string \<Rightarrow> string \<Rightarrow> string list \<Rightarrow> SeriesState \<Rightarrow> error + SeriesState" where
  "move_members metanodeName seriesName [] st = Inr st"
| "move_members metanodeName seriesName (n # rest) st =
     (let h = shier st
      in case node_g (metagraph_of h metanodeName) (index h) n of
           None \<Rightarrow> Inl (NotAnObject n)
         | Some child \<Rightarrow>
             let h1 = update_node seriesName (absorb_member child n) h;
                 h2 = update_node n (\<lambda>c. c\<lparr>parentNode := Some seriesName\<rparr>) h1;
                 h3 = update_node metanodeName (\<lambda>m. m\<lparr>metagraph := removeNode_g n (metagraph m)\<rparr>) h2
             in move_members metanodeName seriesName rest
                  (st\<lparr>shier := h3, seriesNames := (seriesNames st)(n \<mapsto> seriesName)\<rparr>))"

text \<open>The body of the loop over the detected series.\<close>

definition place_series ::
  "int \<Rightarrow> string \<Rightarrow> string \<times> Node \<Rightarrow> SeriesState \<Rightarrow> error + SeriesState" where
  "place_series threshold metanodeName entry st =
     (case entry of (seriesName, seriesNode) \<Rightarrow>
        let nodeMemberNames = gnodes (metagraph seriesNode)
        in case stamp_members metanodeName seriesName nodeMemberNames (shier st) of
             Inl e \<Rightarrow> Inl e
           | Inr h1 \<Rightarrow>
               let map1 = (if int (length nodeMemberNames) < threshold \<and> smap st (name seriesNode) = None
                           then (smap st)(name seriesNode \<mapsto> UNGROUP) else smap st);
                   st1 = st\<lparr>shier := h1, smap := map1\<rparr>
               in if map1 (name seriesNode) = Some UNGROUP then Inr st1
                  else
                    let h2 = setNode seriesName seriesNode h1;
                        h3 = update_node metanodeName
                               (\<lambda>m. m\<lparr>metagraph := setNode_g seriesName (metagraph m)\<rparr>) h2
                    in move_members metanodeName seriesName nodeMemberNames (st1\<lparr>shier := h3\<rparr>))"

fun place_all ::
  "int \<Rightarrow> string \<Rightarrow> (string \<times> Node) list \<Rightarrow> SeriesState \<Rightarrow> error + SeriesState" where
  "place_all threshold metanodeName [] st = Inr st"
| "place_all threshold metanodeName (entry # rest) st =
     (case place_series threshold metanodeName entry st of
        Inl e \<Rightarrow> Inl e
      | Inr st' \<Rightarrow> place_all threshold metanodeName rest st')"

definition detectSeriesMethod :: "bool \<Rightarrow> naming \<Rightarrow> (string \<times> string list) list \<Rightarrow> (string \<times> Node) list" where
  "detectSeriesMethod generalized =
     (if generalized then detectSeriesAnywhereInNodeName else detectSeriesUsingNumericSuffixes)"

text \<open>
  \<open>groupSeries\<close> first descends into every child that is a Metanode, then clusters and
  groups the children of the metanode itself.  The descent is bounded by \<open>fuel\<close>, one
  unit per level of nesting; running out of it is \<open>None\<close>.
\<close>

fun groupSeries ::
  "nat \<Rightarrow> naming \<Rightarrow> int \<Rightarrow> bool \<Rightarrow> string \<Rightarrow> SeriesState \<Rightarrow> (error + SeriesState) option"
and groupSeries_children ::
  "nat \<Rightarrow> naming \<Rightarrow> int \<Rightarrow> bool \<Rightarrow> string \<Rightarrow> string list \<Rightarrow> SeriesState
     \<Rightarrow> (error + SeriesState) option" where
  "groupSeries 0 nm threshold generalized metanodeName st = None"
| "groupSeries (Suc fuel) nm threshold generalized metanodeName st =
     (case groupSeries_children fuel nm threshold generalized metanodeName
             (gnodes (metagraph_of (shier st) metanodeName)) st of
        None \<Rightarrow> None
      | Some (Inl e) \<Rightarrow> Some (Inl e)
      | Some (Inr st1) \<Rightarrow>
          (case clusterNodes (metagraph_of (shier st1) metanodeName) (index (shier st1)) of
             Inl e \<Rightarrow> Some (Inl e)
           | Inr clusters \<Rightarrow>
               Some (place_all threshold metanodeName
                       (detectSeriesMethod generalized nm clusters) st1)))"
| "groupSeries_children fuel nm threshold generalized metanodeName [] st = Some (Inr st)"
| "groupSeries_children fuel nm threshold generalized metanodeName (n # rest) st =
     (case node_g (metagraph_of (shier st) metanodeName) (index (shier st)) n of
        None \<Rightarrow> Some (Inl (NotAnObject n))
      | Some child \<Rightarrow>
          if ntype child = META then
            (case groupSeries fuel nm threshold generalized n st of
               None \<Rightarrow> None
             | Some (Inl e) \<Rightarrow> Some (Inl e)
             | Some (Inr st') \<Rightarrow>
                 groupSeries_children fuel nm threshold generalized metanodeName rest st')
          else groupSeries_children fuel nm threshold generalized metanodeName rest st)"

text \<open>
  The second task of \<open>build\<close>: series are detected only for a positive
  \<open>seriesNodeMinSize\<close>.  \<open>seriesNames\<close> starts empty in \<open>build\<close>.
\<close>

definition detectSeriesTask ::
  "nat \<Rightarrow> naming \<Rightarrow> HierarchyParams \<Rightarrow> Hierarchy \<Rightarrow> (string \<rightharpoonup> string)
     \<Rightarrow> (error + SeriesState) option" where
  "detectSeriesTask fuel nm params h names =
     (let st = \<lparr>shier = h, seriesNames = names, smap = seriesMap params\<rparr>
      in if seriesNodeMinSize params > 0
         then groupSeries fuel nm (seriesNodeMinSize params)
                (useGeneralizedSeriesPatterns params) (root h) st
         else Some (Inr st))"

section \<open>Stats aggregator: joinAndAggregateStats\<close>

definition note_name :: "string option \<Rightarrow> string list \<Rightarrow> string list" where
  "note_name x names = (case x of None \<Rightarrow> names
                        | Some n \<Rightarrow> if n \<in> set names then names else names @ [n])"

fun collect_names ::
  "(string \<rightharpoonup> Node) \<Rightarrow> string list \<Rightarrow> string list \<times> string list
     \<Rightarrow> error + string list \<times> string list" where
  "collect_names idx [] acc = Inr acc"
| "collect_names idx (nodeName # rest) (deviceNames, xlaClusterNames) =
     (case idx nodeName of
        None \<Rightarrow> Inl (NotAnObject nodeName)
      | Some leaf \<Rightarrow>
          collect_names idx rest
            (note_name (device leaf) deviceNames, note_name (xlaCluster leaf) xlaClusterNames))"

text \<open>The loop that resets the group nodes: \<open>stats\<close> and \<open>deviceHistogram\<close> are replaced.\<close>

definition reset_node :: "Node \<Rightarrow> Node" where
  "reset_node node =
     (if isGroupNode node then node\<lparr>stats := Some newNodeStats, deviceHistogram := Map.empty\<rparr>
      else node)"

text \<open>One round of the bubble-up loop, applied to the parent of the current node.\<close>

definition bubble_into :: "Node \<Rightarrow> Node \<Rightarrow> Node" where
  "bubble_into leaf parentN =
     (let p1 = (case device leaf of
                  None \<Rightarrow> parentN
                | Some d \<Rightarrow> parentN\<lparr>deviceHistogram := increment (deviceHistogram parentN) d\<rparr>);
          p2 = (case xlaCluster leaf of
                  None \<Rightarrow> p1
                | Some c \<Rightarrow> p1\<lparr>xlaClusterHistogram := increment (xlaClusterHistogram p1) c\<rparr>)
      in case stats leaf of
           None \<Rightarrow> p2
         | Some ls \<Rightarrow> p2\<lparr>stats := map_option (\<lambda>ps. combine ps ls) (stats p2)\<rparr>)"

text \<open>
  The walk from a leaf up its parents.  A parent without \<open>stats\<close> makes \<open>combine\<close> fail
  when the leaf has some; a walk that never ends is \<open>None\<close>.
\<close>

partial_function (option) bubbleUp ::
  "Node \<Rightarrow> string option \<Rightarrow> (string \<rightharpoonup> Node) \<Rightarrow> (error + (string \<rightharpoonup> Node)) option" where
  "bubbleUp leaf parentName idx =
     (case parentName of
        None \<Rightarrow> Some (Inr idx)
      | Some p \<Rightarrow>
          (case idx p of
             None \<Rightarrow> Some (Inl (NotAnObject p))
           | Some parentN \<Rightarrow>
               if stats leaf \<noteq> None \<and> stats parentN = None then Some (Inl (NotAnObject ''stats''))
               else bubbleUp leaf (parentNode parentN) (idx(p \<mapsto> bubble_into leaf parentN))))"

fun bubbleLeaves ::
  "string list \<Rightarrow> (string \<rightharpoonup> Node) \<Rightarrow> (error + (string \<rightharpoonup> Node)) option" where
  "bubbleLeaves [] idx = Some (Inr idx)"
| "bubbleLeaves (nodeName # rest) idx =
     (case idx nodeName of
        None \<Rightarrow> Some (Inl (NotAnObject nodeName))
      | Some leaf \<Rightarrow>
          (case bubbleUp leaf (parentNode leaf) idx of
             None \<Rightarrow> None
           | Some (Inl e) \<Rightarrow> Some (Inl e)
           | Some (Inr idx') \<Rightarrow> bubbleLeaves rest idx'))"

text \<open>
  \<open>joinAndAggregateStats\<close>.  The list \<open>leaves\<close> stands for \<open>h.root.leaves()\<close>, which is
  declared in graph.ts: the names of the leaf nodes under the root.  The step statistics
  passed in are not read by the function.
\<close>

definition joinAndAggregateStats ::
  "Hierarchy \<Rightarrow> 'a \<Rightarrow> string list \<Rightarrow> (error + Hierarchy) option" where
  "joinAndAggregateStats h stepStats leaves =
     (case collect_names (index h) leaves ([], []) of
        Inl e \<Rightarrow> Some (Inl e)
      | Inr (deviceNames, xlaClusterNames) \<Rightarrow>
          let h1 = h\<lparr>devices := Some deviceNames, xlaClusters := Some xlaClusterNames\<rparr>;
              h2 = h1\<lparr>index := (\<lambda>k. map_option reset_node (index h1 k))\<rparr>
          in (case bubbleLeaves leaves (index h2) of
                None \<Rightarrow> None
              | Some (Inl e) \<Rightarrow> Some (Inl e)
              | Some (Inr idx') \<Rightarrow> Some (Inr (h2\<lparr>index := idx'\<rparr>))))"

text \<open>
  The non-control Metaedges of a metagraph as a relation on child names, and the true
  sources: children that start such an edge and end none.
\<close>

definition regular_edges :: "Graph \<Rightarrow> (string \<times> string) set" where
  "regular_edges mg = set (map fst (filter (\<lambda>p. numRegularEdges (snd p) \<noteq> 0) (gedges mg)))"

definition true_sources :: "Graph \<Rightarrow> string set" where
  "true_sources mg = fst ` regular_edges mg - snd ` regular_edges mg"

text \<open>
  Modelled from the spec: \<open>createMetanode\<close> is declared in graph.ts, which is not among
  the sources.  A fresh Metanode has an empty metagraph, no bridgegraph, empty
  histograms and no parent.
\<close>

definition createMetanode :: "string \<Rightarrow> Node" where
  "createMetanode n =
     \<lparr>name = n, ntype = META, parentNode = None, cardinality = 0, stats = None,
      deviceHistogram = Map.empty, xlaClusterHistogram = Map.empty,
      compatibleCount = 0, incompatibleCount = 0, op = [], device = None,
      xlaCluster = None, compatible = False, inEmbeddings = [], outEmbeddings = [],
      owningSeries = None, metagraph = createGraph, bridgegraph = None,
      hasNonControlEdges = False, prefix = [], suffix = [], parent = [],
      clusterId = None, ids = []\<rparr>"

text \<open>The relation a successor dictionary stands for.\<close>

definition Esucc :: "succs \<Rightarrow> (string \<times> string) set" where
  "Esucc S = {(a, b). b \<in> set (succs_of S a)}"

definition regular_of :: "((string \<times> string) \<times> Metaedge) list \<Rightarrow> (string \<times> string) set" where
  "regular_of es = set (map fst (filter (\<lambda>p. numRegularEdges (snd p) \<noteq> 0) es))"

text \<open>
  How often a child is still listed in the successor dictionary, how many non-control
  Metaedges of a metagraph end in a child, and the non-control Metaedges that start in a
  child in which at most one of them ends.
\<close>

definition pending :: "succs \<Rightarrow> string \<Rightarrow> nat" where
  "pending S v = sum_list (map (\<lambda>p. count_list (snd p) v) S)"

definition entries_into :: "Graph \<Rightarrow> string \<Rightarrow> nat" where
  "entries_into mg v =
     length (filter (\<lambda>p. snd (fst p) = v \<and> numRegularEdges (snd p) \<noteq> 0) (gedges mg))"

definition single_entry_edges :: "Graph \<Rightarrow> (string \<times> string) set" where
  "single_entry_edges mg = {(v, w). (v, w) \<in> regular_edges mg \<and> entries_into mg v \<le> 1}"

subsection \<open>Sample hierarchies\<close>

definition regularEdge :: "string \<Rightarrow> string \<Rightarrow> BaseEdge" where
  "regularEdge a b =
     \<lparr>edge_v = a, edge_w = b, isControlDependency = False, isReferenceEdge = False,
      outputTensorKey = ''0''\<rparr>"

definition regularMetaedge :: "string \<Rightarrow> string \<Rightarrow> Metaedge" where
  "regularMetaedge a b = addBaseEdge (regularEdge a b) (createMetaedge a b)"

definition container_with :: "Graph \<Rightarrow> Hierarchy" where
  "container_with mg =
     \<lparr>root = ''__root__'',
      index = [''__root__'' \<mapsto> (createMetanode ''__root__'')\<lparr>metagraph := mg\<rparr>],
      orderings = Map.empty, devices = None, xlaClusters = None\<rparr>"

definition chain_graph :: Graph where
  "chain_graph =
     setEdge_g ''B'' ''C'' (regularMetaedge ''B'' ''C'')
       (setEdge_g ''A'' ''B'' (regularMetaedge ''A'' ''B'') createGraph)"

definition fed_cycle_graph :: Graph where
  "fed_cycle_graph =
     setEdge_g ''B'' ''A'' (regularMetaedge ''B'' ''A'')
       (setEdge_g ''A'' ''B'' (regularMetaedge ''A'' ''B'')
         (setEdge_g ''S'' ''A'' (regularMetaedge ''S'' ''A'') createGraph))"

definition pure_cycle_graph :: Graph where
  "pure_cycle_graph =
     setEdge_g ''B'' ''A'' (regularMetaedge ''B'' ''A'')
       (setEdge_g ''A'' ''B'' (regularMetaedge ''A'' ''B'')
         (setNode_g ''B'' (setNode_g ''A'' createGraph)))"

definition revisit_graph :: Graph where
  "revisit_graph =
     setEdge_g ''D'' ''B'' (regularMetaedge ''D'' ''B'')
       (setEdge_g ''A'' ''D'' (regularMetaedge ''A'' ''D'')
         (setEdge_g ''B'' ''C'' (regularMetaedge ''B'' ''C'')
           (setEdge_g ''A'' ''B'' (regularMetaedge ''A'' ''B'') createGraph)))"

text \<open>The index entries of two hierarchies agree on their keys and node types.\<close>

definition same_types :: "Hierarchy \<Rightarrow> Hierarchy \<Rightarrow> bool" where
  "same_types h h' = (\<forall>k. map_option ntype (index h' k) = map_option ntype (index h k))"

definition opNode :: "string \<Rightarrow> string \<Rightarrow> string option \<Rightarrow> Node" where
  "opNode n o_type par =
     \<lparr>name = n, ntype = OP, parentNode = par, cardinality = 1, stats = None,
      deviceHistogram = Map.empty, xlaClusterHistogram = Map.empty,
      compatibleCount = 0, incompatibleCount = 0, op = o_type, device = None,
      xlaCluster = None, compatible = True, inEmbeddings = [], outEmbeddings = [],
      owningSeries = None, metagraph = createGraph, bridgegraph = None,
      hasNonControlEdges = False, prefix = [], suffix = [], parent = [],
      clusterId = None, ids = []\<rparr>"

definition sample_h :: Hierarchy where
  "sample_h =
     \<lparr>root = ''__root__'',
      index = [''__root__'' \<mapsto> (createMetanode ''__root__'')
                 \<lparr>metagraph := setEdge_g ''b'' ''a''
                     (addBaseEdge (regularEdge ''b'' ''a/x'') (createMetaedge ''b'' ''a''))
                     (setNode_g ''b'' (setNode_g ''a'' createGraph))\<rparr>,
               ''a'' \<mapsto> (createMetanode ''a'')
                 \<lparr>parentNode := Some ''__root__'', metagraph := setNode_g ''a/x'' createGraph\<rparr>,
               ''a/x'' \<mapsto> opNode ''a/x'' ''Add'' (Some ''a''),
               ''b'' \<mapsto> opNode ''b'' ''Const'' (Some ''__root__'')],
      orderings = Map.empty, devices = None, xlaClusters = None\<rparr>"

definition skel :: "Node \<Rightarrow> string \<times> string option \<times> NodeType" where
  "skel n = (name n, parentNode n, ntype n)"

definition same_skeleton :: "(string \<rightharpoonup> Node) \<Rightarrow> (string \<rightharpoonup> Node) \<Rightarrow> bool" where
  "same_skeleton idx idx' = (\<forall>k. map_option skel (idx' k) = map_option skel (idx k))"

definition same_root :: "SlimGraph \<Rightarrow> (string \<rightharpoonup> Node) \<Rightarrow> BaseEdge \<Rightarrow> bool" where
  "same_root graph idx e =
     (case (ancestor_names idx (flat_node graph idx (edge_v e)),
            ancestor_names idx (flat_node graph idx (edge_w e))) of
        (Some ps, Some pd) \<Rightarrow> ps = [] \<or> pd = [] \<or> last ps = last pd
      | _ \<Rightarrow> True)"

definition bases :: "Graph \<Rightarrow> string \<Rightarrow> string \<Rightarrow> BaseEdge list" where
  "bases g a b = (case edge_g g a b of None \<Rightarrow> [] | Some m \<Rightarrow> baseEdgeList m)"

definition resolved :: "SlimGraph \<Rightarrow> (string \<rightharpoonup> Node) \<Rightarrow> BaseEdge \<Rightarrow> bool" where
  "resolved graph idx e =
     (case (ancestor_names idx (flat_node graph idx (edge_v e)),
            ancestor_names idx (flat_node graph idx (edge_w e))) of
        (Some ps, Some pd) \<Rightarrow> ps \<noteq> [] \<and> pd \<noteq> []
      | _ \<Rightarrow> False)"

definition gathered ::
  "SlimGraph \<Rightarrow> (string \<rightharpoonup> Node) \<Rightarrow> BaseEdge list \<Rightarrow> string \<Rightarrow> Node \<Rightarrow> Node \<Rightarrow> bool" where
  "gathered graph idx es c n n' =
     (\<forall>a b. bases (metagraph n') a b =
        bases (metagraph n) a b @ filter (\<lambda>e. lowest_common graph idx e = Some (c, a, b)) es)"

definition controlEdge :: "string \<Rightarrow> string \<Rightarrow> BaseEdge" where
  "controlEdge a b =
     \<lparr>edge_v = a, edge_w = b, isControlDependency = True, isReferenceEdge = False,
      outputTensorKey = ''0''\<rparr>"

definition sample_graph :: SlimGraph where
  "sample_graph =
     \<lparr>slim_nodes = [''a/x'', ''b''],
      slim_edges = [controlEdge ''b'' ''a/x'', regularEdge ''b'' ''summary'', regularEdge ''b'' ''a/x'']\<rparr>"

definition self_loop_graph :: SlimGraph where
  "self_loop_graph = \<lparr>slim_nodes = [''a/x'', ''b''], slim_edges = [regularEdge ''b'' ''b'']\<rparr>"

text \<open>
  A hierarchy as addNodes leaves it for a single leaf \<open>x\<close> placed on device \<open>d\<close> in
  XLA cluster \<open>c\<close>: the root counts the leaf once in each histogram.
\<close>

definition stats_h :: Hierarchy where
  "stats_h =
     \<lparr>root = ''__root__'',
      index = [''__root__'' \<mapsto> (createMetanode ''__root__'')
                 \<lparr>metagraph := setNode_g ''x'' createGraph, cardinality := 1,
                  deviceHistogram := [''d'' \<mapsto> 1], xlaClusterHistogram := [''c'' \<mapsto> 1]\<rparr>,
               ''x'' \<mapsto> (opNode ''x'' ''Add'' (Some ''__root__''))
                 \<lparr>device := Some ''d'', xlaCluster := Some ''c''\<rparr>],
      orderings = Map.empty, devices = Some [''d''], xlaClusters = Some [''c'']\<rparr>"

text \<open>The name of a leaf under a parent path; at the top level the parent path is empty.\<close>

definition under :: "string \<Rightarrow> string \<Rightarrow> string" where
  "under par l = (if par = [] then l else par @ ''/'' @ l)"

definition foo_candidate :: "string \<Rightarrow> string \<Rightarrow> nat \<Rightarrow> Candidate" where
  "foo_candidate par l i =
     \<lparr>cand_prefix = ''foo'', cand_suffix = [], cand_parent = par, cand_clusterId = i,
      cand_name = under par l\<rparr>"

definition foo_series :: "naming \<Rightarrow> string \<Rightarrow> string \<Rightarrow> (nat \<times> string) list \<Rightarrow> string \<times> Node" where
  "foo_series nm o_type par members =
     (nm ''foo'' [] par (Some (fst (hd members), fst (last members))),
      (createSeriesNode ''foo'' [] par (op_number o_type)
         (nm ''foo'' [] par (Some (fst (hd members), fst (last members)))))
        \<lparr>ids := map fst members,
         metagraph := \<lparr>gnodes = map (\<lambda>m. under par (snd m)) members, gedges = []\<rparr>\<rparr>)"

text \<open>A container \<open>c\<close> whose children are op nodes of one op type.\<close>

definition leaf_container :: "string \<Rightarrow> string list \<Rightarrow> string \<Rightarrow> Hierarchy" where
  "leaf_container c names o_type =
     \<lparr>root = c,
      index = (\<lambda>k. if k = c then
                     Some ((createMetanode c)\<lparr>metagraph := \<lparr>gnodes = names, gedges = []\<rparr>,
                                              cardinality := length names\<rparr>)
                   else if k \<in> set names then Some (opNode k o_type (Some c))
                   else None),
      orderings = Map.empty, devices = None, xlaClusters = None\<rparr>"

definition digit_char :: "nat \<Rightarrow> char" where
  "digit_char n = ''0123456789'' ! n"

text \<open>
  A naming function for the examples: parent path, prefix, \<open>[first-last]\<close> or \<open>#\<close>, suffix.
\<close>

function show_nat :: "nat \<Rightarrow> string" where
  "show_nat n = (if n < 10 then [digit_char n] else show_nat (n div 10) @ [digit_char (n mod 10)])"
  by pat_completeness auto
termination
  by (relation "measure id") auto

declare show_nat.simps [simp del]

definition sample_naming :: naming where
  "sample_naming pre suf par bounds =
     under par (pre @ (case bounds of None \<Rightarrow> ''#''
                       | Some (a, b) \<Rightarrow> ''['' @ show_nat a @ ''-'' @ show_nat b @ '']'') @ suf)"

definition stamp :: "string \<Rightarrow> Node \<Rightarrow> Node" where
  "stamp s c = (if owningSeries c = None \<or> owningSeries c = Some [] then c\<lparr>owningSeries := Some s\<rparr> else c)"

definition stamp_all :: "string \<Rightarrow> string list \<Rightarrow> Hierarchy \<Rightarrow> Hierarchy" where
  "stamp_all s ms h =
     h\<lparr>index := (\<lambda>k. if k \<in> set ms then map_option (stamp s) (index h k) else index h k)\<rparr>"

definition moved :: "string \<Rightarrow> string \<Rightarrow> string list \<Rightarrow> SeriesState \<Rightarrow> SeriesState \<Rightarrow> bool" where
  "moved m s ms st st' =
     ((\<forall>k. k \<notin> set ms \<and> k \<noteq> s \<and> k \<noteq> m \<longrightarrow> index (shier st') k = index (shier st) k) \<and>
      (\<forall>n \<in> set ms. index (shier st') n =
          map_option (\<lambda>c. c\<lparr>parentNode := Some s\<rparr>) (index (shier st) n)) \<and>
      gnodes (metagraph_of (shier st') m) =
        filter (\<lambda>x. x \<notin> set ms) (gnodes (metagraph_of (shier st) m)) \<and>
      map_option ntype (index (shier st') s) = map_option ntype (index (shier st) s) \<and>
      set (gnodes (metagraph_of (shier st') s)) = set (gnodes (metagraph_of (shier st) s)) \<union> set ms \<and>
      index (shier st') m \<noteq> None \<and> index (shier st') s \<noteq> None \<and>
      seriesNames st' = (\<lambda>k. if k \<in> set ms then Some s else seriesNames st k) \<and>
      smap st' = smap st)"

definition stays :: "string \<Rightarrow> string \<Rightarrow> string list \<Rightarrow> SeriesState \<Rightarrow> SeriesState \<Rightarrow> bool" where
  "stays m s ms st st' =
     (gnodes (metagraph_of (shier st') m) = gnodes (metagraph_of (shier st) m) \<and>
      (\<forall>k. k \<notin> set ms \<longrightarrow> index (shier st') k = index (shier st) k) \<and>
      (\<forall>n \<in> set ms. index (shier st') n = map_option (stamp s) (index (shier st) n)) \<and>
      seriesNames st' = seriesNames st)"

definition spliced :: "string \<Rightarrow> string \<Rightarrow> Node \<Rightarrow> SeriesState \<Rightarrow> SeriesState \<Rightarrow> bool" where
  "spliced m s seriesNode st st' =
     ((\<forall>n \<in> set (gnodes (metagraph seriesNode)).
         n \<notin> set (gnodes (metagraph_of (shier st') m)) \<and>
         n \<in> set (gnodes (metagraph_of (shier st') s)) \<and>
         index (shier st') n =
           map_option (\<lambda>c. (stamp s c)\<lparr>parentNode := Some s\<rparr>) (index (shier st) n) \<and>
         seriesNames st' n = Some s) \<and>
      s \<in> set (gnodes (metagraph_of (shier st') m)) \<and>
      map_option ntype (index (shier st') s) = Some (ntype seriesNode))"

text \<open>The series of the first example and the state it is placed in.\<close>

definition S123 :: Node where
  "S123 = snd (foo_series sample_naming ''Add'' [] [(1, ''foo_1''), (2, ''foo_2''), (3, ''foo_3'')])"

definition st123 :: SeriesState where
  "st123 = \<lparr>shier = leaf_container ''__root__'' [''foo_1'', ''foo_2'', ''foo_3''] ''Add'',
         seriesNames = Map.empty, smap = Map.empty\<rparr>"

section \<open>Verified properties\<close>


subsection \<open>The breadth-first traversal\<close>

lemma succs_of_delete_key:
  "succs_of (delete_key c S) x = (if x = c then [] else succs_of S x)"
  by (induction S) (auto simp: succs_of_def delete_key_def)

lemma Esucc_delete_key: "Esucc (delete_key c S) = {(a, b). (a, b) \<in> Esucc S \<and> a \<noteq> c}"
  by (auto simp: Esucc_def succs_of_delete_key split: if_splits)

lemma traverse_mono: "x \<in> dom ord \<Longrightarrow> x \<in> dom (traverse S q ord i)"
  by (induction S q ord i rule: traverse.induct) auto

lemma traverse_lower:
  "traverse S q ord i x = Some j \<Longrightarrow> ord x = Some j \<or> i \<le> j"
proof (induction S q ord i rule: traverse.induct)
  case (1 S ord i)
  then show ?case by simp
next
  case (2 S c q ord i)
  from "2.prems" have "traverse (delete_key c S) (q @ succs_of S c) (ord(c \<mapsto> i)) (i + 1) x = Some j"
    by (simp only: traverse.simps)
  then have "(ord(c \<mapsto> i)) x = Some j \<or> i + 1 \<le> j"
    by (rule "2.IH")
  then show ?case by (auto split: if_splits)
qed

lemma traverse_untouched:
  "x \<notin> set q \<Longrightarrow> (\<forall>a. x \<notin> set (succs_of S a)) \<Longrightarrow> traverse S q ord i x = ord x"
proof (induction S q ord i rule: traverse.induct)
  case (1 S ord i)
  then show ?case by simp
next
  case (2 S c q ord i)
  have "traverse (delete_key c S) (q @ succs_of S c) (ord(c \<mapsto> i)) (i + 1) x = (ord(c \<mapsto> i)) x"
    using 2 by (intro "2.IH") (auto simp: succs_of_delete_key)
  with 2 show ?case by simp
qed

lemma traverse_prefix:
  "distinct ss \<Longrightarrow> set ss \<inter> set q = {} \<Longrightarrow> (\<forall>a. set ss \<inter> set (succs_of S a) = {}) \<Longrightarrow>
   (\<forall>m < length ss. traverse S (ss @ q) ord i (ss ! m) = Some (i + m)) \<and>
   (\<forall>x j. x \<notin> set ss \<longrightarrow> traverse S (ss @ q) ord i x = Some j \<longrightarrow> ord x = Some j \<or> i + length ss \<le> j)"
proof (induction ss arbitrary: S q ord i)
  case Nil
  then show ?case using traverse_lower by auto
next
  case (Cons s ss)
  let ?S = "delete_key s S" and ?q = "q @ succs_of S s" and ?o = "ord(s \<mapsto> i)"
  have step: "traverse S ((s # ss) @ q) ord i = traverse ?S (ss @ ?q) ?o (i + 1)" by simp
  have pre: "distinct ss" "set ss \<inter> set ?q = {}" "\<forall>a. set ss \<inter> set (succs_of ?S a) = {}"
    using Cons.prems by (auto simp: succs_of_delete_key)
  note IH = Cons.IH[OF pre, of ?o "i + 1"]
  have s0: "traverse ?S (ss @ ?q) ?o (i + 1) s = ?o s"
    using Cons.prems by (intro traverse_untouched) (auto simp: succs_of_delete_key)
  show ?case
  proof (intro conjI allI impI)
    fix m assume "m < length (s # ss)"
    show "traverse S ((s # ss) @ q) ord i ((s # ss) ! m) = Some (i + m)"
    proof (cases m)
      case 0
      then show ?thesis using s0 step by simp
    next
      case (Suc k)
      with \<open>m < length (s # ss)\<close> have "k < length ss" by simp
      with IH have "traverse ?S (ss @ ?q) ?o (i + 1) (ss ! k) = Some (i + 1 + k)" by blast
      with Suc step show ?thesis by simp
    qed
  next
    fix x j assume x: "x \<notin> set (s # ss)" and r: "traverse S ((s # ss) @ q) ord i x = Some j"
    from x have "x \<notin> set ss" "x \<noteq> s" by auto
    with IH r step have "?o x = Some j \<or> i + 1 + length ss \<le> j" by metis
    with \<open>x \<noteq> s\<close> show "ord x = Some j \<or> i + length (s # ss) \<le> j" by auto
  qed
qed

lemma rtrancl_avoid:
  assumes "(x, y) \<in> E\<^sup>*"
  shows "(x, y) \<in> {(a, b). (a, b) \<in> E \<and> a \<noteq> c}\<^sup>* \<or>
         (\<exists>w. (c, w) \<in> E \<and> (w, y) \<in> {(a, b). (a, b) \<in> E \<and> a \<noteq> c}\<^sup>*) \<or> y = c"
  using assms
proof (induction rule: rtrancl_induct)
  case base
  then show ?case by simp
next
  case (step z y)
  let ?E' = "{(a, b). (a, b) \<in> E \<and> a \<noteq> c}"
  show ?case
  proof (cases "z = c")
    case True
    with step.hyps have "(c, y) \<in> E" by simp
    then show ?thesis by blast
  next
    case False
    with step.hyps have zy: "(z, y) \<in> ?E'" by simp
    from step.IH False consider "(x, z) \<in> ?E'\<^sup>*" | w where "(c, w) \<in> E" "(w, z) \<in> ?E'\<^sup>*"
      by blast
    then show ?thesis
    proof cases
      case 1
      from 1 zy have "(x, y) \<in> ?E'\<^sup>*" by (rule rtrancl_into_rtrancl)
      then show ?thesis by blast
    next
      case 2
      from 2(2) zy have "(w, y) \<in> ?E'\<^sup>*" by (rule rtrancl_into_rtrancl)
      with 2(1) show ?thesis by blast
    qed
  qed
qed

lemma traverse_reaches:
  "x \<in> set q \<Longrightarrow> (x, y) \<in> (Esucc S)\<^sup>* \<Longrightarrow> y \<in> dom (traverse S q ord i)"
proof (induction S q ord i arbitrary: x rule: traverse.induct)
  case (1 S ord i)
  then show ?case by simp
next
  case (2 S c q ord i)
  let ?S = "delete_key c S" and ?q = "q @ succs_of S c" and ?o = "ord(c \<mapsto> i)"
  have E': "Esucc ?S = {(a, b). (a, b) \<in> Esucc S \<and> a \<noteq> c}" by (rule Esucc_delete_key)
  from rtrancl_avoid[OF "2.prems"(2), of c]
  consider "(x, y) \<in> (Esucc ?S)\<^sup>*" | w where "(c, w) \<in> Esucc S" "(w, y) \<in> (Esucc ?S)\<^sup>*" | "y = c"
    unfolding E' by blast
  then have "y \<in> dom (traverse ?S ?q ?o (i + 1))"
  proof cases
    case 1
    show ?thesis
    proof (cases "x = c")
      case True
      with 1 have "y = c \<or> (\<exists>z. (c, z) \<in> Esucc ?S)"
        by (metis converse_rtranclE)
      then have "y = c" by (auto simp: E')
      then show ?thesis by (intro traverse_mono) simp
    next
      case False
      with "2.prems" have "x \<in> set ?q" by simp
      then show ?thesis using 1 by (rule "2.IH")
    qed
  next
    case 2
    from 2(1) have "w \<in> set ?q" by (simp add: Esucc_def)
    then show ?thesis using 2(2) by (rule "2.IH")
  next
    case 3
    then show ?thesis by (intro traverse_mono) simp
  qed
  then show ?case by simp
qed

lemma traverse_dom_sub:
  "y \<in> dom (traverse S q ord i) \<Longrightarrow> y \<in> dom ord \<or> (\<exists>x \<in> set q. (x, y) \<in> (Esucc S)\<^sup>*)"
proof (induction S q ord i rule: traverse.induct)
  case (1 S ord i)
  then show ?case by simp
next
  case (2 S c q ord i)
  let ?S = "delete_key c S" and ?q = "q @ succs_of S c" and ?o = "ord(c \<mapsto> i)"
  have sub: "(Esucc ?S)\<^sup>* \<subseteq> (Esucc S)\<^sup>*"
    by (rule rtrancl_mono) (auto simp: Esucc_delete_key)
  from "2.prems" have "y \<in> dom (traverse ?S ?q ?o (i + 1))"
    by (simp only: traverse.simps)
  then have "y \<in> dom ?o \<or> (\<exists>x \<in> set ?q. (x, y) \<in> (Esucc ?S)\<^sup>*)"
    by (rule "2.IH")
  then consider "y \<in> dom ord" | "y = c" | x where "x \<in> set q" "(x, y) \<in> (Esucc ?S)\<^sup>*"
    | x where "x \<in> set (succs_of S c)" "(x, y) \<in> (Esucc ?S)\<^sup>*"
    by auto
  then show ?case
  proof cases
    case 1 then show ?thesis by simp
  next
    case 2 then show ?thesis by auto
  next
    case 3 then show ?thesis using sub by auto
  next
    case 4
    then have "(c, x) \<in> Esucc S" "(x, y) \<in> (Esucc S)\<^sup>*" using sub by (auto simp: Esucc_def)
    then have "(c, y) \<in> (Esucc S)\<^sup>*" by (rule converse_rtrancl_into_rtrancl)
    then show ?thesis by auto
  qed
qed


lemma succs_of_push_entry:
  "succs_of (push_entry a b S) x = (if x = a then succs_of S a @ [b] else succs_of S x)"
  by (induction S) (auto simp: succs_of_def)

lemma keys_push_entry:
  "map fst (push_entry a b S) = (if a \<in> set (map fst S) then map fst S else map fst S @ [a])"
proof (induction S)
  case Nil
  then show ?case by simp
next
  case (Cons p S)
  then show ?case by (cases p) force
qed

lemma Esucc_push_entry: "Esucc (push_entry a b S) = insert (a, b) (Esucc S)"
  by (auto simp: Esucc_def succs_of_push_entry split: if_splits)

lemma collect_edges_inv:
  "collect_edges es (S, D) = (S', D') \<Longrightarrow>
     Esucc S' = Esucc S \<union> regular_of es \<and>
     set D' = set D \<union> snd ` regular_of es \<and>
     set (map fst S') = set (map fst S) \<union> fst ` regular_of es \<and>
     (distinct (map fst S) \<longrightarrow> distinct (map fst S'))"
proof (induction es "(S, D)" arbitrary: S D rule: collect_edges.induct)
  case 1
  then show ?case by (simp add: regular_of_def)
next
  case (2 a b m es S D)
  show ?case
  proof (cases "numRegularEdges m = 0")
    case True
    with 2 show ?thesis by (simp add: regular_of_def)
  next
    case False
    let ?S = "push_entry a b S" and ?D = "if b \<in> set D then D else D @ [b]"
    from False "2.prems" have "collect_edges es (?S, ?D) = (S', D')" by simp
    from "2.hyps"(2)[OF False this]
    have "Esucc S' = Esucc ?S \<union> regular_of es \<and>
      set D' = set ?D \<union> snd ` regular_of es \<and>
      set (map fst S') = set (map fst ?S) \<union> fst ` regular_of es \<and>
      (distinct (map fst ?S) \<longrightarrow> distinct (map fst S'))" .
    moreover have "regular_of (((a, b), m) # es) = insert (a, b) (regular_of es)"
      using False by (simp add: regular_of_def)
    moreover have "distinct (map fst S) \<Longrightarrow> distinct (map fst ?S)"
      by (simp add: keys_push_entry)
    moreover have "set (map fst ?S) = insert a (set (map fst S))"
      by (auto simp: keys_push_entry)
    ultimately show ?thesis
      by (auto simp: Esucc_push_entry)
  qed
qed

lemma Esucc_Nil: "Esucc [] = {}"
  by (simp add: Esucc_def succs_of_def)

lemma ordering_of_unfold:
  obtains S q where "ordering_of mg = traverse S q Map.empty 0"
    and "Esucc S = regular_edges mg" and "distinct q" and "set q = true_sources mg"
proof -
  obtain S D where c: "collect_edges (gedges mg) ([], []) = (S, D)" by (cases "collect_edges (gedges mg) ([], [])")
  from collect_edges_inv[OF c]
  have E: "Esucc S = regular_edges mg" and D: "set D = snd ` regular_edges mg"
    and K: "set (map fst S) = fst ` regular_edges mg" and dist: "distinct (map fst S)"
    by (simp_all add: Esucc_Nil regular_of_def regular_edges_def)
  let ?q = "filter (\<lambda>k. k \<notin> set D) (map fst S)"
  have "ordering_of mg = traverse S ?q Map.empty 0"
    by (simp add: ordering_of_def c)
  moreover have "distinct ?q" using dist by simp
  moreover have "set ?q = true_sources mg" using D K by (auto simp: true_sources_def)
  ultimately show thesis using E that by blast
qed

lemma ordering_of_dom:
  "dom (ordering_of mg) = {c. \<exists>s \<in> true_sources mg. (s, c) \<in> (regular_edges mg)\<^sup>*}"
proof -
  obtain S q where o: "ordering_of mg = traverse S q Map.empty 0"
    and E: "Esucc S = regular_edges mg" and q: "set q = true_sources mg"
    by (rule ordering_of_unfold)
  show ?thesis
  proof (intro set_eqI iffI)
    fix c assume "c \<in> dom (ordering_of mg)"
    with o have "c \<in> dom (traverse S q Map.empty 0)" by simp
    from traverse_dom_sub[OF this] show "c \<in> {c. \<exists>s \<in> true_sources mg. (s, c) \<in> (regular_edges mg)\<^sup>*}"
      using E q by auto
  next
    fix c assume "c \<in> {c. \<exists>s \<in> true_sources mg. (s, c) \<in> (regular_edges mg)\<^sup>*}"
    then obtain s where "s \<in> set q" "(s, c) \<in> (Esucc S)\<^sup>*" using E q by auto
    then have "c \<in> dom (traverse S q Map.empty 0)" by (rule traverse_reaches)
    with o show "c \<in> dom (ordering_of mg)" by simp
  qed
qed

lemma ordering_of_sources_first:
  assumes a: "a \<in> true_sources mg" and b: "b \<notin> true_sources mg" and bd: "ordering_of mg b = Some j"
  shows "\<exists>i. ordering_of mg a = Some i \<and> i < j"
proof -
  obtain S q where o: "ordering_of mg = traverse S q Map.empty 0"
    and E: "Esucc S = regular_edges mg" and dq: "distinct q" and q: "set q = true_sources mg"
    by (rule ordering_of_unfold)
  have nosucc: "\<forall>x. set q \<inter> set (succs_of S x) = {}"
  proof (intro allI)
    fix x
    have "\<And>y. y \<in> set (succs_of S x) \<Longrightarrow> y \<in> snd ` regular_edges mg"
      using E by (force simp: Esucc_def)
    then show "set q \<inter> set (succs_of S x) = {}" using q by (auto simp: true_sources_def)
  qed
  from traverse_prefix[OF dq _ nosucc, of "[]" Map.empty 0]
  have P1: "\<forall>m < length q. traverse S q Map.empty 0 (q ! m) = Some m"
    and P2: "\<forall>x j. x \<notin> set q \<longrightarrow> traverse S q Map.empty 0 x = Some j \<longrightarrow> length q \<le> j"
    by auto
  from a q have "a \<in> set q" by simp
  then obtain m where m: "m < length q" "q ! m = a" by (auto simp: in_set_conv_nth)
  with P1 o have "ordering_of mg a = Some m" by auto
  moreover from b q bd o P2 have "length q \<le> j" by auto
  ultimately show ?thesis using m by auto
qed


lemma ordering_of_finite: "finite (dom (ordering_of mg))"
proof -
  have "dom (ordering_of mg) \<subseteq> fst ` regular_edges mg \<union> snd ` regular_edges mg"
  proof
    fix c assume "c \<in> dom (ordering_of mg)"
    then obtain s where s: "s \<in> true_sources mg" "(s, c) \<in> (regular_edges mg)\<^sup>*"
      unfolding ordering_of_dom by blast
    from s(2) show "c \<in> fst ` regular_edges mg \<union> snd ` regular_edges mg"
    proof (cases rule: rtranclE)
      case base
      with s(1) show ?thesis by (simp add: true_sources_def)
    next
      case (step y)
      then show ?thesis by force
    qed
  qed
  moreover have "finite (fst ` regular_edges mg \<union> snd ` regular_edges mg)"
    by (simp add: regular_edges_def)
  ultimately show ?thesis by (rule finite_subset)
qed

lemma pending_delete_key:
  "count_list (succs_of S c) v + pending (delete_key c S) v \<le> pending S v"
proof (induction S)
  case Nil
  then show ?case by (simp add: pending_def delete_key_def succs_of_def)
next
  case (Cons p S)
  show ?case
  proof (cases "fst p = c")
    case True
    have "pending (delete_key c S) v \<le> pending S v" using Cons.IH by simp
    with True show ?thesis by (cases p) (simp add: pending_def delete_key_def succs_of_def)
  next
    case False
    with Cons.IH show ?thesis by (cases p) (simp add: pending_def delete_key_def succs_of_def)
  qed
qed

lemma pending_zero: "pending S v = 0 \<Longrightarrow> v \<notin> set (succs_of S a)"
proof (induction S)
  case Nil
  then show ?case by (simp add: succs_of_def)
next
  case (Cons p S)
  then show ?case
    by (cases p) (auto simp: pending_def succs_of_def count_list_0_iff split: if_splits)
qed

lemma traverse_queued:
  "x \<in> set q \<Longrightarrow> \<exists>j \<ge> i. traverse S q ord i x = Some j"
proof (induction S q ord i rule: traverse.induct)
  case (1 S ord i)
  then show ?case by simp
next
  case (2 S c q ord i)
  let ?r = "traverse (delete_key c S) (q @ succs_of S c) (ord(c \<mapsto> i)) (i + 1)"
  show ?case
  proof (cases "x \<in> set (q @ succs_of S c)")
    case True
    then have "\<exists>j \<ge> i + 1. ?r x = Some j" by (rule "2.IH")
    then show ?thesis by auto
  next
    case False
    with "2.prems" have xc: "x = c" by auto
    have "x \<in> dom (ord(c \<mapsto> i))" using xc by simp
    then have "x \<in> dom ?r" by (rule traverse_mono)
    then obtain j where j: "?r x = Some j" by blast
    from traverse_lower[OF j] xc have "i \<le> j" by auto
    with j show ?thesis by simp
  qed
qed

lemma traverse_single_entry:
  assumes "count_list q v + pending S v \<le> 1" and "w \<in> set (succs_of S v)"
  shows "traverse S q ord i v = ord v \<or>
         (\<exists>a b. traverse S q ord i v = Some a \<and> traverse S q ord i w = Some b \<and> i \<le> a \<and> a < b)"
  using assms
proof (induction S q ord i rule: traverse.induct)
  case (1 S ord i)
  then show ?case by simp
next
  case (2 S c q ord i)
  let ?S = "delete_key c S" and ?q = "q @ succs_of S c" and ?o = "ord(c \<mapsto> i)"
  let ?r = "traverse ?S ?q ?o (i + 1)"
  show ?case
  proof (cases "c = v")
    case True
    with "2.prems"(1) have q0: "v \<notin> set q" and p0: "pending S v = 0"
      by (auto simp: count_list_0_iff)
    from p0 have nos: "\<And>a. v \<notin> set (succs_of S a)" by (rule pending_zero)
    have "v \<notin> set ?q" using q0 nos by simp
    moreover have "\<forall>a. v \<notin> set (succs_of ?S a)" using nos by (simp add: succs_of_delete_key)
    ultimately have "?r v = ?o v" by (rule traverse_untouched)
    with True have rv: "?r v = Some i" by simp
    from "2.prems"(2) True have "w \<in> set ?q" by simp
    then obtain b where "b \<ge> i + 1" "?r w = Some b" using traverse_queued by blast
    with rv show ?thesis by auto
  next
    case False
    have "count_list ?q v + pending ?S v \<le> count_list q v + pending S v"
      using pending_delete_key[of S c v] by simp
    also have "\<dots> \<le> 1" using "2.prems"(1) False by simp
    finally have c1: "count_list ?q v + pending ?S v \<le> 1" .
    have w1: "w \<in> set (succs_of ?S v)" using "2.prems"(2) False by (simp add: succs_of_delete_key)
    have unf: "traverse S (c # q) ord i = ?r" by simp
    have ov: "?o v = ord v" using False by simp
    have "?r v = ord v \<or> (\<exists>a b. ?r v = Some a \<and> ?r w = Some b \<and> i \<le> a \<and> a < b)"
      using "2.IH"[OF c1 w1] unfolding ov
    proof (elim disjE exE conjE)
      assume "?r v = ord v"
      then show ?thesis by (rule disjI1)
    next
      fix a b
      assume "?r v = Some a" "?r w = Some b" "i + 1 \<le> a" "a < b"
      moreover from \<open>i + 1 \<le> a\<close> have "i \<le> a" by arith
      ultimately show ?thesis by blast
    qed
    then show ?thesis unfolding unf .
  qed
qed

lemma count_list_distinct:
  "distinct xs \<Longrightarrow> x \<in> set xs \<Longrightarrow> count_list xs x = 1"
  by (induction xs) (auto simp: count_list_0_iff)

lemma pending_push_entry:
  "pending (push_entry a b S) v = pending S v + (if b = v then 1 else 0)"
  by (induction S) (auto simp: pending_def)

lemma collect_edges_pending:
  "collect_edges es (S, D) = (S', D') \<Longrightarrow>
   pending S' v = pending S v +
     length (filter (\<lambda>p. snd (fst p) = v \<and> numRegularEdges (snd p) \<noteq> 0) es)"
proof (induction es "(S, D)" arbitrary: S D rule: collect_edges.induct)
  case 1
  then show ?case by simp
next
  case (2 a b m es S D)
  show ?case
  proof (cases "numRegularEdges m = 0")
    case True
    with 2 show ?thesis by simp
  next
    case False
    let ?S = "push_entry a b S" and ?D = "if b \<in> set D then D else D @ [b]"
    from False "2.prems" have "collect_edges es (?S, ?D) = (S', D')" by simp
    from "2.hyps"(2)[OF False this] False show ?thesis
      by (simp add: pending_push_entry)
  qed
qed

lemma ordering_of_single_entry:
  assumes e: "(v, w) \<in> regular_edges mg" and one: "entries_into mg v \<le> 1"
    and dv: "v \<in> dom (ordering_of mg)"
  shows "\<exists>a b. ordering_of mg v = Some a \<and> ordering_of mg w = Some b \<and> a < b"
proof -
  obtain S D where c: "collect_edges (gedges mg) ([], []) = (S, D)"
    by (cases "collect_edges (gedges mg) ([], [])")
  from collect_edges_inv[OF c]
  have E: "Esucc S = regular_edges mg" and D: "set D = snd ` regular_edges mg"
    and dist: "distinct (map fst S)"
    by (simp_all add: Esucc_Nil regular_of_def regular_edges_def)
  let ?q = "filter (\<lambda>k. k \<notin> set D) (map fst S)"
  have o: "ordering_of mg = traverse S ?q Map.empty 0" by (simp add: ordering_of_def c)
  from collect_edges_pending[OF c, of v] have p: "pending S v = entries_into mg v"
    by (simp add: entries_into_def pending_def)
  have w: "w \<in> set (succs_of S v)" using e E by (auto simp: Esucc_def)
  have dq: "distinct ?q" using dist by simp
  have cnt: "count_list ?q v + pending S v \<le> 1"
  proof (cases "v \<in> set ?q")
    case True
    then have "v \<notin> snd ` regular_edges mg" using D by simp
    then have "\<And>a. v \<notin> set (succs_of S a)" using E by (force simp: Esucc_def)
    then have "pending S v = 0"
      unfolding pending_def
      by (auto simp: sum_list_eq_0_iff count_list_0_iff succs_of_def dist
          dest!: map_of_is_SomeI[OF dist] split: option.splits)
    moreover from True dq have "count_list ?q v = 1" by (simp add: count_list_distinct)
    ultimately show ?thesis by simp
  next
    case False
    then have "count_list ?q v = 0" by (simp add: count_list_0_iff)
    with p one show ?thesis by simp
  qed
  from traverse_single_entry[OF cnt w, of Map.empty 0] dv show ?thesis
    unfolding o by auto
qed


lemma ordering_of_single_entry_path:
  assumes p: "(a, b) \<in> (single_entry_edges mg)\<^sup>+" and da: "a \<in> dom (ordering_of mg)"
  shows "\<exists>i j. ordering_of mg a = Some i \<and> ordering_of mg b = Some j \<and> i < j"
  using p
proof (induction rule: trancl_induct)
  case (base y)
  then show ?case using ordering_of_single_entry[of a y mg] da
    by (simp add: single_entry_edges_def)
next
  case (step y z)
  from step.IH obtain i j where ij: "ordering_of mg a = Some i" "ordering_of mg y = Some j" "i < j"
    by blast
  from ij(2) have "y \<in> dom (ordering_of mg)" by blast
  with step.hyps(2) ordering_of_single_entry[of y z mg]
  obtain j' k where "ordering_of mg y = Some j'" "ordering_of mg z = Some k" "j' < k"
    by (auto simp: single_entry_edges_def)
  with ij show ?case by auto
qed

lemma getTopologicalOrdering_fresh:
  assumes "index h nodeName = Some node" and "isGroupNode node" and "orderings h nodeName = None"
  shows "getTopologicalOrdering h nodeName =
           Inr (Some (ordering_of (metagraph node)),
                h\<lparr>orderings := (orderings h)(nodeName \<mapsto> ordering_of (metagraph node))\<rparr>)"
  using assms by (simp add: getTopologicalOrdering_def Let_def)

lemmas sample_defs = chain_graph_def fed_cycle_graph_def pure_cycle_graph_def revisit_graph_def
  setEdge_g_def setNode_g_def createGraph_def regularMetaedge_def regularEdge_def
  addBaseEdge_def createMetaedge_def

lemma container_with_fresh:
  "index (container_with g) ''__root__'' = Some ((createMetanode ''__root__'')\<lparr>metagraph := g\<rparr>)"
  "isGroupNode ((createMetanode ''__root__'')\<lparr>metagraph := g\<rparr>)"
  "orderings (container_with g) ''__root__'' = None"
  "metagraph ((createMetanode ''__root__'')\<lparr>metagraph := g\<rparr>) = g"
  by (simp_all add: container_with_def createMetanode_def isGroupNode_def)




text \<open>
  The same happens without any cycle when a child is reached a second time after its
  successors were numbered: with the edges A -> B, B -> C, A -> D and D -> B the result
  is A = 0, D = 2, C = 3, B = 4, although B -> C is an edge.
\<close>

lemma getTopologicalOrdering_revisit_example:
  "(''B'', ''C'') \<in> regular_edges revisit_graph \<and>
   ordering_of revisit_graph ''B'' = Some 4 \<and> ordering_of revisit_graph ''C'' = Some 3"
  by (simp add: sample_defs ordering_of_def succs_of_def delete_key_def regular_edges_def)





subsection \<open>The bridge router and the caches\<close>

lemma ntype_set_bridgegraph:
  "map_option ntype (index (set_bridgegraph n g h) k) = map_option ntype (index h k)"
  by (simp add: set_bridgegraph_def option.map_comp comp_def)

lemma fillBridgegraph_Inr:
  assumes "fillBridgegraph nodeName pname pm pres = Some (Inr (r, h'))"
  obtains pb h2 bg where "pres = Inr (Some pb, h2)" and "r = Some bg"
    and "h' = set_bridgegraph nodeName bg h2"
  using assms unfolding fillBridgegraph_def
  by (auto split: sum.splits option.splits prod.splits)

lemma same_types_refl: "same_types h h"
  by (simp add: same_types_def)

lemma same_types_set: "same_types h h2 \<Longrightarrow> same_types h (set_bridgegraph n g h2)"
  by (simp add: same_types_def ntype_set_bridgegraph)

lemma same_types_set_left: "same_types (set_bridgegraph n g h) h2 \<Longrightarrow> same_types h h2"
  by (simp add: same_types_def ntype_set_bridgegraph)

lemmas getBridgegraph_induct = getBridgegraph.raw_induct[rotated 1, consumes 1, case_names step]

lemma getBridgegraph_types_aux:
  "getBridgegraph n h = Some res \<Longrightarrow> \<forall>r h'. res = Inr (r, h') \<longrightarrow> same_types h h'"
proof (induction rule: getBridgegraph_induct)
  case (step getB n h res)
  note 1 = step
  show ?case
  proof (intro allI impI, cases "index h n")
    fix r h' assume res: "res = Inr (r, h')"
    note 1 = step res
    case None
    with 1 show "same_types h h'" by simp
  next
    fix r h' assume res: "res = Inr (r, h')"
    note 1 = step res
    case (Some node)
    show "same_types h h'"
    proof (cases "has_metagraph node")
      case False
      with 1 Some show ?thesis by (auto simp: same_types_refl)
    next
      case True
      show ?thesis
      proof (cases "bridgegraph node")
        case (Some cached)
        with 1 True \<open>index h n = Some node\<close> show ?thesis by (auto simp: same_types_refl)
      next
        case None
        let ?h1 = "set_bridgegraph n createGraph h"
        have h1: "same_types h ?h1" by (intro same_types_set same_types_refl)
        show ?thesis
        proof (cases "parentNode node")
          case None
          with 1 True \<open>index h n = Some node\<close> \<open>bridgegraph node = None\<close> h1
          show ?thesis by (auto simp: Let_def)
        next
          case (Some pname)
          show ?thesis
          proof (cases "index ?h1 pname")
            case None
            with 1 True \<open>index h n = Some node\<close> \<open>bridgegraph node = None\<close> Some
            show ?thesis by (auto simp: Let_def)
          next
            case (Some parentN)
            show ?thesis
            proof (cases "has_metagraph parentN")
              case False
              with 1 True \<open>index h n = Some node\<close> \<open>bridgegraph node = None\<close>
                \<open>parentNode node = Some pname\<close> Some h1
              show ?thesis by (auto simp: Let_def)
            next
              case pm: True
              from 1(2-) True \<open>index h n = Some node\<close> \<open>bridgegraph node = None\<close>
                \<open>parentNode node = Some pname\<close> Some pm
              have "Option.bind (getB pname ?h1) (fillBridgegraph n pname (metagraph parentN)) = Some (Inr (r, h'))"
                by (simp add: Let_def)
              then obtain pres where p: "getB pname ?h1 = Some pres"
                and f: "fillBridgegraph n pname (metagraph parentN) pres = Some (Inr (r, h'))"
                by (auto simp: bind_eq_Some_conv)
              from f obtain pb h2 bg where pres: "pres = Inr (Some pb, h2)" and "r = Some bg"
                and h': "h' = set_bridgegraph n bg h2"
                by (rule fillBridgegraph_Inr)
              from 1(1)[OF p] pres have "same_types ?h1 h2" by blast
              then have "same_types h h2" by (rule same_types_set_left)
              with h' show ?thesis by (simp add: same_types_set)
            qed
          qed
        qed
      qed
    qed
  qed
qed

lemma getBridgegraph_types:
  "getBridgegraph n h = Some (Inr (r, h')) \<Longrightarrow> same_types h h'"
  using getBridgegraph_types_aux by blast



lemmas sample_h_defs = sample_h_def createMetanode_def opNode_def has_metagraph_def
  set_bridgegraph_def


lemma sample_h_bridge: "\<exists>r h1. getBridgegraph ''a'' sample_h = Some (Inr (r, h1))"
  apply (subst getBridgegraph.simps)
  apply (subst getBridgegraph.simps)
  apply (simp add: sample_h_defs fillBridgegraph_def bridgeParentGraph_def Let_def
     sample_defs edge_g_def getChildName_def getChildName_loop.simps bridgeBaseEdge_def)
  done

lemma getBridgegraph_cached:
  assumes "index h nodeName = Some node" and "has_metagraph node" and "bridgegraph node = Some bg"
  shows "getBridgegraph nodeName h = Some (Inr (Some bg, h))"
  using assms by (subst getBridgegraph.simps) simp

lemma index_set_bridgegraph:
  "index (set_bridgegraph n g h) n = map_option (\<lambda>x. x\<lparr>bridgegraph := Some g\<rparr>) (index h n)"
  by (simp add: set_bridgegraph_def)

lemma set_bridgegraph_idem:
  "index h n = Some node \<Longrightarrow> bridgegraph node = Some g \<Longrightarrow> set_bridgegraph n g h = h"
  by (simp add: set_bridgegraph_def fun_upd_idem)

lemma getBridgegraph_fills_cache:
  assumes "getBridgegraph nodeName h = Some (Inr (r, h'))"
    and "index h nodeName = Some node" and "has_metagraph node"
  shows "\<exists>bg node'. r = Some bg \<and> index h' nodeName = Some node' \<and> has_metagraph node' \<and>
           bridgegraph node' = Some bg"
proof (cases "bridgegraph node")
  case (Some cached)
  with assms have "r = Some cached" "h' = h" by (simp_all add: getBridgegraph_cached)
  with assms Some show ?thesis by simp
next
  case None
  let ?h1 = "set_bridgegraph nodeName createGraph h"
  have i1: "index ?h1 nodeName = Some (node\<lparr>bridgegraph := Some createGraph\<rparr>)"
    using assms(2) by (simp add: index_set_bridgegraph)
  have m1: "has_metagraph (node\<lparr>bridgegraph := Some createGraph\<rparr>)"
    using assms(3) by (simp add: has_metagraph_def)
  from assms None have eq: "(case parentNode node of
        None \<Rightarrow> Some (Inr (Some createGraph, ?h1))
      | Some pname \<Rightarrow>
          (case index ?h1 pname of
             None \<Rightarrow> Some (Inl (CouldNotFindNodeInHierarchy pname))
           | Some parentN \<Rightarrow>
               if \<not> has_metagraph parentN then Some (Inr (Some createGraph, ?h1))
               else Option.bind (getBridgegraph pname ?h1)
                      (fillBridgegraph nodeName pname (metagraph parentN)))) = Some (Inr (r, h'))"
    by (subst (asm) getBridgegraph.simps) (simp add: Let_def)
  show ?thesis
  proof (cases "parentNode node")
    case None
    with eq i1 m1 show ?thesis by auto
  next
    case (Some pname)
    show ?thesis
    proof (cases "index ?h1 pname")
      case None
      with eq Some show ?thesis by simp
    next
      case (Some parentN)
      show ?thesis
      proof (cases "has_metagraph parentN")
        case False
        with eq \<open>parentNode node = Some pname\<close> Some i1 m1 show ?thesis by auto
      next
        case True
        with eq \<open>parentNode node = Some pname\<close> Some
        obtain pres where p: "getBridgegraph pname ?h1 = Some pres"
          and f: "fillBridgegraph nodeName pname (metagraph parentN) pres = Some (Inr (r, h'))"
          by (auto simp: bind_eq_Some_conv)
        from f obtain pb h2 bg where pres: "pres = Inr (Some pb, h2)" and r: "r = Some bg"
          and h': "h' = set_bridgegraph nodeName bg h2"
          by (rule fillBridgegraph_Inr)
        from p pres have "same_types ?h1 h2" by (simp add: getBridgegraph_types)
        then have "map_option ntype (index h2 nodeName) = map_option ntype (index ?h1 nodeName)"
          by (simp add: same_types_def)
        with i1 assms(3) obtain n2 where n2: "index h2 nodeName = Some n2" "has_metagraph n2"
          by (auto simp: has_metagraph_def)
        with h' r show ?thesis
          by (simp add: index_set_bridgegraph has_metagraph_def)
      qed
    qed
  qed
qed

text \<open>
  C8.  For a container, a request for the bridgegraph that returns leaves the returned
  graph in the node's \<open>bridgegraph\<close> field, and the next request returns that same
  graph and changes nothing; likewise a request for the topological ordering leaves
  the returned ordering in \<open>orderings\<close>, and the next request returns it and changes
  nothing.
\<close>

theorem cached_result_returned_again:
  assumes "index h nodeName = Some node" and "isGroupNode node"
  shows "(getBridgegraph nodeName h = Some (Inr (r, h1)) \<longrightarrow>
            getBridgegraph nodeName h1 = Some (Inr (r, h1)) \<and>
            (\<exists>n1. index h1 nodeName = Some n1 \<and> bridgegraph n1 = r \<and> r \<noteq> None)) \<and>
         (getTopologicalOrdering h nodeName = Inr (q, h2) \<longrightarrow>
            getTopologicalOrdering h2 nodeName = Inr (q, h2) \<and>
            orderings h2 nodeName = q \<and> q \<noteq> None)"
proof (intro conjI impI)
  assume b: "getBridgegraph nodeName h = Some (Inr (r, h1))"
  from assms(2) have m: "has_metagraph node" by (simp add: isGroupNode_def has_metagraph_def)
  from getBridgegraph_fills_cache[OF b assms(1) m]
  obtain bg node' where c: "r = Some bg" "index h1 nodeName = Some node'" "has_metagraph node'"
    "bridgegraph node' = Some bg" by blast
  then show "getBridgegraph nodeName h1 = Some (Inr (r, h1))"
    by (simp add: getBridgegraph_cached)
  from c show "\<exists>n1. index h1 nodeName = Some n1 \<and> bridgegraph n1 = r \<and> r \<noteq> None" by simp
next
  assume t: "getTopologicalOrdering h nodeName = Inr (q, h2)"
  have "getTopologicalOrdering h2 nodeName = Inr (q, h2) \<and> orderings h2 nodeName = q \<and> q \<noteq> None"
  proof (cases "orderings h nodeName")
    case None
    from t getTopologicalOrdering_fresh[OF assms None]
    have "Inr (q, h2) = (Inr (Some (ordering_of (metagraph node)),
        h\<lparr>orderings := (orderings h)(nodeName \<mapsto> ordering_of (metagraph node))\<rparr>)
          :: error + ((string \<rightharpoonup> nat) option \<times> Hierarchy))"
      by (rule trans[OF sym])
    then have "q = Some (ordering_of (metagraph node))"
      and "h2 = h\<lparr>orderings := (orderings h)(nodeName \<mapsto> ordering_of (metagraph node))\<rparr>"
      by blast+
    with assms show ?thesis by (simp add: getTopologicalOrdering_def)
  next
    case (Some cached)
    with t assms have "q = Some cached" "h2 = h" by (simp_all add: getTopologicalOrdering_def)
    with assms Some show ?thesis by (simp add: getTopologicalOrdering_def)
  qed
  then show "getTopologicalOrdering h2 nodeName = Inr (q, h2)" "orderings h2 nodeName = q" "q \<noteq> None"
    by simp_all
qed

theorem cached_result_returned_again_witness:
  "\<exists>r h1 q h2.
     getBridgegraph ''a'' sample_h = Some (Inr (r, h1)) \<and>
     getBridgegraph ''a'' h1 = Some (Inr (r, h1)) \<and>
     getTopologicalOrdering sample_h ''a'' = Inr (q, h2) \<and>
     getTopologicalOrdering h2 ''a'' = Inr (q, h2)"
proof -
  have i: "index sample_h ''a'' = Some ((createMetanode ''a'')
             \<lparr>parentNode := Some ''__root__'', metagraph := setNode_g ''a/x'' createGraph\<rparr>)"
    by (simp add: sample_h_def)
  have g: "isGroupNode ((createMetanode ''a'')
             \<lparr>parentNode := Some ''__root__'', metagraph := setNode_g ''a/x'' createGraph\<rparr>)"
    by (simp add: isGroupNode_def createMetanode_def)
  obtain r h1 where b: "getBridgegraph ''a'' sample_h = Some (Inr (r, h1))"
    using sample_h_bridge by blast
  obtain q h2 where t: "getTopologicalOrdering sample_h ''a'' = Inr (q, h2)"
    using getTopologicalOrdering_fresh[OF i g] by (simp add: sample_h_def)
  from cached_result_returned_again[OF i g, of r h1 q h2] b t show ?thesis by blast
qed





subsection \<open>The edge builder\<close>

lemmas ancestor_names_induct = ancestor_names.raw_induct[rotated 1, consumes 1, case_names step]

lemma ancestor_names_skel_aux:
  assumes "ancestor_names idx node = Some ps"
  shows "\<forall>idx' node'. same_skeleton idx idx' \<longrightarrow> map_option skel node' = map_option skel node \<longrightarrow>
           ancestor_names idx' node' = Some ps"
  using assms
proof (induction rule: ancestor_names_induct)
  case (step an idx node ps)
  show ?case
  proof (intro allI impI)
    fix idx' node'
    assume sk: "same_skeleton idx idx'" and eq: "map_option skel node' = map_option skel node"
    show "ancestor_names idx' node' = Some ps"
    proof (cases node)
      case None
      with eq step(2) show ?thesis by (simp add: ancestor_names.simps)
    next
      case (Some nd)
      with eq obtain nd' where nd': "node' = Some nd'" "skel nd' = skel nd" by auto
      let ?up = "case parentNode nd of None \<Rightarrow> None | Some p \<Rightarrow> idx p"
      let ?up' = "case parentNode nd' of None \<Rightarrow> None | Some p \<Rightarrow> idx' p"
      from step(2) Some obtain rest where r: "an idx ?up = Some rest" and ps: "ps = name nd # rest"
        by (auto simp: bind_eq_Some_conv)
      have "map_option skel ?up' = map_option skel ?up"
        using nd'(2) sk by (auto simp: skel_def same_skeleton_def split: option.splits)
      with step(1)[OF r] sk have "ancestor_names idx' ?up' = Some rest" by blast
      with nd' ps show ?thesis
        by (subst ancestor_names.simps) (simp add: skel_def)
    qed
  qed
qed

lemma ancestor_names_skel_le:
  assumes "ancestor_names idx node = Some ps" and "same_skeleton idx idx'"
    and "map_option skel node' = map_option skel node"
  shows "ancestor_names idx' node' = Some ps"
  using ancestor_names_skel_aux[OF assms(1)] assms(2,3) by blast

lemma same_skeleton_sym: "same_skeleton a b \<Longrightarrow> same_skeleton b a"
  by (simp add: same_skeleton_def)

lemma ancestor_names_skel:
  assumes "same_skeleton idx idx'" and "map_option skel node' = map_option skel node"
  shows "ancestor_names idx' node' = ancestor_names idx node"
proof (cases "ancestor_names idx node")
  case (Some ps)
  with ancestor_names_skel_le[OF Some assms(1) assms(2)] show ?thesis by simp
next
  case None
  show ?thesis
  proof (cases "ancestor_names idx' node'")
    case None
    with \<open>ancestor_names idx node = None\<close> show ?thesis by simp
  next
    case (Some ps)
    from ancestor_names_skel_le[OF Some same_skeleton_sym[OF assms(1)] assms(2)[symmetric]]
    have "ancestor_names idx node = Some ps" .
    with None show ?thesis by simp
  qed
qed

lemma flat_node_skel:
  "same_skeleton idx idx' \<Longrightarrow>
   map_option skel (flat_node graph idx' n) = map_option skel (flat_node graph idx n)"
  by (simp add: flat_node_def same_skeleton_def)

lemma lowest_common_skel:
  "same_skeleton idx idx' \<Longrightarrow> lowest_common graph idx' e = lowest_common graph idx e"
  by (simp add: lowest_common_def ancestor_names_skel[OF _ flat_node_skel])


lemma divergence_Nil2: "divergence xs [] cm = None"
  by (cases xs) simp_all

lemma rev_take_Suc: "i < length xs \<Longrightarrow> rev (take (Suc i) xs) = xs ! i # rev (take i xs)"
  by (simp add: take_Suc_conv_app_nth)

lemma findDifference_divergence:
  assumes "si < length ps" and "di < length pd"
    and "\<forall>c. cm = Some c \<longrightarrow> si + 1 < length ps \<and> ps ! (si + 1) = c"
  shows "case divergence (rev (take (Suc si) ps)) (rev (take (Suc di) pd)) cm of
           Some (c, a, b) \<Rightarrow>
             \<exists>si' di'. findDifference (ps @ xs) (pd @ ys) si di = Inr (si', di') \<and>
               si' + 1 < length ps \<and> di' < length pd \<and>
               ps ! si' = a \<and> pd ! di' = b \<and> ps ! (si' + 1) = c
         | None \<Rightarrow>
             findDifference (ps @ xs) (pd @ ys) si di = Inl NoDifferenceBetweenAncestorPaths \<or>
             (cm = None \<and> ps ! si \<noteq> pd ! di)"
  using assms
proof (induction si arbitrary: di cm)
  case 0
  show ?case
  proof (cases "ps ! 0 = pd ! di")
    case True
    with 0 have "findDifference (ps @ xs) (pd @ ys) 0 di = Inl NoDifferenceBetweenAncestorPaths"
      by (subst findDifference.simps) (simp add: nth_append)
    with True 0 show ?thesis by (simp add: rev_take_Suc)
  next
    case False
    with 0 have "findDifference (ps @ xs) (pd @ ys) 0 di = Inr (0, di)"
      by (subst findDifference.simps) (simp add: nth_append)
    with False 0 show ?thesis by (auto simp: rev_take_Suc split: option.splits)
  qed
next
  case (Suc n)
  show ?case
  proof (cases "ps ! Suc n = pd ! di")
    case False
    with Suc.prems have "findDifference (ps @ xs) (pd @ ys) (Suc n) di = Inr (Suc n, di)"
      by (subst findDifference.simps) (simp add: nth_append)
    with False Suc.prems show ?thesis by (auto simp: rev_take_Suc split: option.splits)
  next
    case True
    show ?thesis
    proof (cases di)
      case 0
      with True Suc.prems
      have "findDifference (ps @ xs) (pd @ ys) (Suc n) di = Inl NoDifferenceBetweenAncestorPaths"
        by (subst findDifference.simps) (simp add: nth_append)
      with 0 True Suc.prems show ?thesis by (simp add: rev_take_Suc divergence_Nil2)
    next
      case (Suc m)
      have n: "n < length ps" and m: "m < length pd" using Suc.prems Suc by simp_all
      have cm': "\<forall>c. Some (ps ! Suc n) = Some c \<longrightarrow> n + 1 < length ps \<and> ps ! (n + 1) = c"
        using Suc.prems by simp
      note IH = Suc.IH[OF n m cm']
      have fd: "findDifference (ps @ xs) (pd @ ys) (Suc n) di = findDifference (ps @ xs) (pd @ ys) n m"
        using True Suc Suc.prems by (subst findDifference.simps) (simp add: nth_append)
      have dv: "divergence (rev (take (Suc (Suc n)) ps)) (rev (take (Suc di) pd)) cm =
                divergence (rev (take (Suc n) ps)) (rev (take (Suc m) pd)) (Some (ps ! Suc n))"
        using True Suc Suc.prems by (simp add: rev_take_Suc[of "Suc n"] rev_take_Suc[of "Suc m"])
      from IH show ?thesis unfolding fd dv by (auto split: option.splits)
    qed
  qed
qed

lemma findDifference_whole:
  assumes "ps \<noteq> []" and "pd \<noteq> []" and "last ps = last pd"
  shows "case divergence (rev ps) (rev pd) None of
           Some (c, a, b) \<Rightarrow>
             \<exists>si di. findDifference (ps @ xs) (pd @ ys) (length ps - 1) (length pd - 1) = Inr (si, di) \<and>
               si + 1 < length ps \<and> (ps @ xs) ! si = a \<and> (pd @ ys) ! di = b \<and> (ps @ xs) ! (si + 1) = c
         | None \<Rightarrow>
             findDifference (ps @ xs) (pd @ ys) (length ps - 1) (length pd - 1) =
               Inl NoDifferenceBetweenAncestorPaths"
proof -
  have s: "length ps - 1 < length ps" and d: "length pd - 1 < length pd" using assms by simp_all
  have t: "take (Suc (length ps - 1)) ps = ps" "take (Suc (length pd - 1)) pd = pd"
    using assms by simp_all
  have eq: "ps ! (length ps - 1) = pd ! (length pd - 1)"
    using assms by (simp add: last_conv_nth)
  from findDifference_divergence[OF s d, of None xs ys] eq
  show ?thesis unfolding t by (auto simp: nth_append split: option.splits)
qed


lemma same_root_skel:
  "same_skeleton idx idx' \<Longrightarrow> same_root graph idx' e = same_root graph idx e"
  by (simp add: same_root_def ancestor_names_skel[OF _ flat_node_skel])

lemma resolved_skel:
  "same_skeleton idx idx' \<Longrightarrow> resolved graph idx' e = resolved graph idx e"
  by (simp add: resolved_def ancestor_names_skel[OF _ flat_node_skel])

lemma addEdge_effect:
  assumes ae: "addEdge graph e st = Some (Inr st')"
    and sr: "same_root graph (index (hier st)) e"
  shows "(\<not> resolved graph (index (hier st)) e \<and> lowest_common graph (index (hier st)) e = None \<and>
            hier st' = hier st) \<or>
         (\<exists>c a b node. resolved graph (index (hier st)) e \<and>
            lowest_common graph (index (hier st)) e = Some (c, a, b) \<and>
            index (hier st) c = Some node \<and> has_metagraph node \<and>
            hier st' = setNode c (attachEdge e a b node) (hier st))"
proof -
  let ?idx = "index (hier st)"
  from ae obtain ps where ps: "ancestor_names ?idx (flat_node graph ?idx (edge_v e)) = Some ps"
    by (auto simp: addEdge_def getPath_def Let_def split: option.splits)
  from ae ps obtain pd where pd: "ancestor_names ?idx (flat_node graph ?idx (edge_w e)) = Some pd"
    by (auto simp: addEdge_def getPath_def Let_def split: option.splits)
  let ?sp = "ps @ drop (length ps) (sourcePath st)" and ?dp = "pd @ drop (length pd) (destPath st)"
  let ?st1 = "st\<lparr>sourcePath := ?sp, destPath := ?dp\<rparr>"
  show ?thesis
  proof (cases "ps = [] \<or> pd = []")
    case True
    with ae ps pd have "st' = ?st1" by (auto simp: addEdge_def getPath_def Let_def)
    moreover from True ps pd have "lowest_common graph ?idx e = None"
      by (auto simp: lowest_common_def divergence_Nil2)
    moreover from True ps pd have "\<not> resolved graph ?idx e" by (auto simp: resolved_def)
    ultimately show ?thesis by simp
  next
    case False
    then have ne: "ps \<noteq> []" "pd \<noteq> []" by simp_all
    with sr ps pd have lst: "last ps = last pd" by (simp add: same_root_def)
    from ne ps pd have res: "resolved graph ?idx e" by (simp add: resolved_def)
    have lc: "lowest_common graph ?idx e = divergence (rev ps) (rev pd) None"
      using ps pd by (simp add: lowest_common_def)
    from ae ps pd ne have step: "(case findDifference ?sp ?dp (length ps - 1) (length pd - 1) of
        Inl err \<Rightarrow> Some (Inl err)
      | Inr (si, di) \<Rightarrow>
          let sharedName = (if si + 1 < length ?sp then ?sp ! (si + 1) else ''undefined'')
          in (case ?idx sharedName of
                None \<Rightarrow> Some (Inl (NotAnObject ''sharedAncestorNode''))
              | Some sharedAncestorNode \<Rightarrow>
                  if \<not> has_metagraph sharedAncestorNode then Some (Inl (NotAnObject ''metagraph''))
                  else Some (Inr (?st1\<lparr>hier := setNode sharedName
                         (attachEdge e (?sp ! si) (?dp ! di) sharedAncestorNode) (hier st)\<rparr>)))) =
        Some (Inr st')"
      by (simp add: addEdge_def getPath_def Let_def)
    show ?thesis
    proof (cases "divergence (rev ps) (rev pd) None")
      case None
      with findDifference_whole[OF ne lst, of "drop (length ps) (sourcePath st)" "drop (length pd) (destPath st)"]
      have "findDifference ?sp ?dp (length ps - 1) (length pd - 1) = Inl NoDifferenceBetweenAncestorPaths"
        by simp
      with step show ?thesis by simp
    next
      case (Some t)
      obtain c a b where t: "t = (c, a, b)" by (cases t)
      with Some findDifference_whole[OF ne lst, of "drop (length ps) (sourcePath st)" "drop (length pd) (destPath st)"]
      obtain si di where fd: "findDifference ?sp ?dp (length ps - 1) (length pd - 1) = Inr (si, di)"
        and si: "si + 1 < length ps" and a: "?sp ! si = a" and b: "?dp ! di = b" and c: "?sp ! (si + 1) = c"
        by auto
      from si have sl: "si + 1 < length ?sp" by simp
      from step fd c a b sl
      have "\<exists>node. ?idx c = Some node \<and> has_metagraph node \<and>
              st' = ?st1\<lparr>hier := setNode c (attachEdge e a b node) (hier st)\<rparr>"
        by (auto simp: Let_def split: option.splits if_splits)
      then obtain node where node: "?idx c = Some node" and hm: "has_metagraph node"
        and "st' = ?st1\<lparr>hier := setNode c (attachEdge e a b node) (hier st)\<rparr>"
        by blast
      then have "hier st' = setNode c (attachEdge e a b node) (hier st)" by simp
      with res lc Some t node hm show ?thesis by simp
    qed
  qed
qed

lemma map_of_upsert: "map_of (upsert k x kvs) = (map_of kvs)(k \<mapsto> x)"
  by (induction kvs) (auto simp: fun_upd_twist)

lemma edge_g_setEdge_g:
  "edge_g (setEdge_g a b m g) a' b' = (if a' = a \<and> b' = b then Some m else edge_g g a' b')"
  by (auto simp: edge_g_def setEdge_g_def setNode_g_def map_of_upsert map_add_def split: option.splits)

lemma bases_attachEdge:
  "bases (metagraph (attachEdge e a b node)) a' b' =
     bases (metagraph node) a' b' @ (if a' = a \<and> b' = b then [e] else [])"
  by (auto simp: bases_def attachEdge_def Let_def edge_g_setEdge_g addBaseEdge_def createMetaedge_def
           split: option.splits)

lemma skel_attachEdge: "skel (attachEdge e a b node) = skel node"
  by (simp add: skel_def attachEdge_def Let_def)

lemma same_skeleton_setNode:
  "index h c = Some node \<Longrightarrow> skel node' = skel node \<Longrightarrow>
   same_skeleton (index h) (index (setNode c node' h))"
  by (simp add: same_skeleton_def setNode_def)

lemma same_skeleton_trans:
  "same_skeleton a b \<Longrightarrow> same_skeleton b c \<Longrightarrow> same_skeleton a c"
  by (simp add: same_skeleton_def)

lemma addEdges_loop_gathers:
  assumes "addEdges_loop graph es st = Some (Inr st')"
    and "\<forall>e \<in> set es. same_root graph idx0 e"
    and "same_skeleton idx0 (index (hier st))"
  shows "same_skeleton idx0 (index (hier st')) \<and>
         (\<forall>c. rel_option (gathered graph idx0 es c) (index (hier st) c) (index (hier st') c)) \<and>
         (\<forall>e \<in> set es. resolved graph idx0 e \<longrightarrow>
            (\<exists>c a b node. lowest_common graph idx0 e = Some (c, a, b) \<and>
               index (hier st) c = Some node \<and> has_metagraph node))"
  using assms
proof (induction es arbitrary: st)
  case Nil
  then show ?case
    by (auto simp: gathered_def option.rel_sel)
next
  case (Cons e es)
  from Cons.prems(1) obtain st1 where s1: "addEdge graph e st = Some (Inr st1)"
    and rest: "addEdges_loop graph es st1 = Some (Inr st')"
    by (auto split: option.splits sum.splits)
  let ?idx = "index (hier st)"
  have sk: "same_skeleton idx0 ?idx" by (rule Cons.prems(3))
  have sr: "same_root graph ?idx e" using Cons.prems(2) sk by (simp add: same_root_skel)
  have lc: "lowest_common graph ?idx e = lowest_common graph idx0 e" using sk by (rule lowest_common_skel)
  have rs: "resolved graph ?idx e = resolved graph idx0 e" using sk by (rule resolved_skel)
  from addEdge_effect[OF s1 sr, unfolded lc rs]
  consider (skip) "\<not> resolved graph idx0 e" "lowest_common graph idx0 e = None" "hier st1 = hier st"
    | (attach) c a b node where "resolved graph idx0 e" "lowest_common graph idx0 e = Some (c, a, b)"
        "?idx c = Some node" "has_metagraph node" "hier st1 = setNode c (attachEdge e a b node) (hier st)"
    by (elim disjE conjE exE) blast+
  then show ?case
  proof cases
    case skip
    from Cons.IH[OF rest] Cons.prems(2) sk skip(3)
    have IH: "same_skeleton idx0 (index (hier st'))"
      "\<forall>c. rel_option (gathered graph idx0 es c) (?idx c) (index (hier st') c)"
      "\<forall>e \<in> set es. resolved graph idx0 e \<longrightarrow>
            (\<exists>c a b node. lowest_common graph idx0 e = Some (c, a, b) \<and>
               ?idx c = Some node \<and> has_metagraph node)"
      by simp_all
    have "gathered graph idx0 (e # es) c = gathered graph idx0 es c" for c
      using skip(2) by (simp add: gathered_def fun_eq_iff)
    with IH skip(1) show ?thesis by simp
  next
    case attach
    let ?n1 = "attachEdge e a b node"
    have i1: "index (hier st1) = ?idx(c \<mapsto> ?n1)" using attach(5) by (simp add: setNode_def)
    have sk1: "same_skeleton idx0 (index (hier st1))"
      using sk same_skeleton_setNode[OF attach(3) skel_attachEdge, of e a b] attach(5)
      by (auto intro: same_skeleton_trans)
    from Cons.IH[OF rest _ sk1] Cons.prems(2)
    have IH: "same_skeleton idx0 (index (hier st'))"
      "\<forall>c. rel_option (gathered graph idx0 es c) (index (hier st1) c) (index (hier st') c)"
      "\<forall>e \<in> set es. resolved graph idx0 e \<longrightarrow>
            (\<exists>c a b node. lowest_common graph idx0 e = Some (c, a, b) \<and>
               index (hier st1) c = Some node \<and> has_metagraph node)"
      by simp_all
    have g: "rel_option (gathered graph idx0 (e # es) k) (?idx k) (index (hier st') k)" for k
    proof (cases "k = c")
      case True
      from IH(2) have "rel_option (gathered graph idx0 es c) (index (hier st1) c) (index (hier st') c)"
        by blast
      moreover have "index (hier st1) c = Some ?n1" using i1 by simp
      ultimately obtain n' where n': "index (hier st') k = Some n'"
        and g': "gathered graph idx0 es c ?n1 n'"
        using True by (auto simp: option_rel_Some1)
      have "gathered graph idx0 (e # es) c node n'"
        unfolding gathered_def
      proof (intro allI)
        fix a' b'
        from g' have "bases (metagraph n') a' b' =
          bases (metagraph ?n1) a' b' @ filter (\<lambda>e. lowest_common graph idx0 e = Some (c, a', b')) es"
          by (simp add: gathered_def)
        then show "bases (metagraph n') a' b' =
          bases (metagraph node) a' b' @ filter (\<lambda>e. lowest_common graph idx0 e = Some (c, a', b')) (e # es)"
          using attach(2) by (auto simp: bases_attachEdge)
      qed
      with n' True attach(3) show ?thesis by simp
    next
      case False
      with IH(2) i1 have r: "rel_option (gathered graph idx0 es k) (?idx k) (index (hier st') k)"
        by (auto dest: spec[of _ k])
      have "gathered graph idx0 (e # es) k = gathered graph idx0 es k"
        using attach(2) False by (simp add: gathered_def fun_eq_iff)
      with r show ?thesis by simp
    qed
    have r: "\<exists>c a b node. lowest_common graph idx0 x = Some (c, a, b) \<and>
               ?idx c = Some node \<and> has_metagraph node"
      if "x \<in> set (e # es)" "resolved graph idx0 x" for x
    proof (cases "x = e")
      case True
      with attach show ?thesis by blast
    next
      case False
      with that IH(3) obtain c' a' b' node' where x: "lowest_common graph idx0 x = Some (c', a', b')"
        "index (hier st1) c' = Some node'" "has_metagraph node'" by auto
      show ?thesis
      proof (cases "c' = c")
        case True
        with x attach(3,4) show ?thesis by blast
      next
        case False
        with x i1 show ?thesis by auto
      qed
    qed
    from IH(1) g r show ?thesis by blast
  qed
qed


lemma sample_paths:
  "ancestor_names (index sample_h) (index sample_h ''b'') = Some [''b'', ''__root__'']"
  "ancestor_names (index sample_h) (index sample_h ''a/x'') = Some [''a/x'', ''a'', ''__root__'']"
  "ancestor_names (index sample_h) None = Some []"
  by (simp_all add: ancestor_names.simps sample_h_defs)


lemma sample_addEdges: "\<exists>h'. addEdges sample_h sample_graph = Some (Inr h')"
  by (simp add: addEdges_def sample_graph_def addEdge_def getPath_def flat_node_def Let_def
        ancestor_names.simps controlEdge_def regularEdge_def findDifference.simps
        sample_h_defs setNode_def attachEdge_def)

lemma sample_lowest_common:
  "lowest_common sample_graph (index sample_h) (controlEdge ''b'' ''a/x'') = Some (''__root__'', ''b'', ''a'')"
  "lowest_common sample_graph (index sample_h) (regularEdge ''b'' ''a/x'') = Some (''__root__'', ''b'', ''a'')"
  "lowest_common sample_graph (index sample_h) (regularEdge ''b'' ''summary'') = None"
  by (simp_all add: lowest_common_def sample_graph_def flat_node_def sample_paths
        controlEdge_def regularEdge_def)



text \<open>
  C6.  A raw edge with an endpoint name that the flat node map does not hold is skipped:
  the step for that edge returns without an error and leaves the hierarchy, and so
  every Metaedge, as it was (the walk up from the other endpoint has to end).
\<close>

theorem addEdge_skips_unresolved_endpoint:
  assumes "edge_v e \<notin> set (slim_nodes graph) \<or> edge_w e \<notin> set (slim_nodes graph)"
    and "ancestor_names (index (hier st)) (flat_node graph (index (hier st)) (edge_v e)) \<noteq> None"
    and "ancestor_names (index (hier st)) (flat_node graph (index (hier st)) (edge_w e)) \<noteq> None"
  shows "\<exists>st'. addEdge graph e st = Some (Inr st') \<and> hier st' = hier st"
proof -
  let ?idx = "index (hier st)"
  from assms(2,3) obtain ps pd
    where ps: "ancestor_names ?idx (flat_node graph ?idx (edge_v e)) = Some ps"
      and pd: "ancestor_names ?idx (flat_node graph ?idx (edge_w e)) = Some pd"
    by auto
  from assms(1) ps pd have "ps = [] \<or> pd = []"
    by (auto simp: flat_node_def ancestor_names.simps)
  with ps pd show ?thesis
    by (auto simp: addEdge_def getPath_def Let_def)
qed

theorem addEdge_skips_unresolved_endpoint_witness:
  "\<exists>st'. addEdge sample_graph (regularEdge ''b'' ''summary'')
            \<lparr>hier = sample_h, sourcePath = [], destPath = []\<rparr> = Some (Inr st') \<and>
         hier st' = sample_h"
proof -
  let ?st = "\<lparr>hier = sample_h, sourcePath = [], destPath = []\<rparr>"
  have 1: "edge_v (regularEdge ''b'' ''summary'') \<notin> set (slim_nodes sample_graph) \<or>
           edge_w (regularEdge ''b'' ''summary'') \<notin> set (slim_nodes sample_graph)"
    by (simp add: regularEdge_def sample_graph_def)
  have 2: "ancestor_names (index (hier ?st))
             (flat_node sample_graph (index (hier ?st)) (edge_v (regularEdge ''b'' ''summary''))) \<noteq> None"
    by (simp add: regularEdge_def sample_graph_def flat_node_def sample_paths)
  have 3: "ancestor_names (index (hier ?st))
             (flat_node sample_graph (index (hier ?st)) (edge_w (regularEdge ''b'' ''summary''))) \<noteq> None"
    by (simp add: regularEdge_def sample_graph_def flat_node_def sample_paths)
  from addEdge_skips_unresolved_endpoint[OF 1 2 3] show ?thesis by simp
qed



subsection \<open>The stats aggregator\<close>

lemmas stats_defs = joinAndAggregateStats_def stats_h_def createMetanode_def opNode_def
  note_name_def reset_node_def isGroupNode_def bubbleUp.simps bubble_into_def increment_def
  Let_def

text \<open>
  C3 at a concrete hierarchy: one leaf \<open>x\<close> on device \<open>d\<close> in XLA cluster \<open>c\<close> under
  the root.  Both invocations return.  The device histogram of the root counts the leaf
  once after each of them; its XLA-cluster histogram is not reset and counts the leaf
  twice after the first invocation and three times after the second.
\<close>

theorem joinAndAggregateStats_accumulates_xla_counts:
  "\<exists>h1 h2 r1 r2.
     joinAndAggregateStats stats_h () [''x''] = Some (Inr h1) \<and>
     joinAndAggregateStats h1 () [''x''] = Some (Inr h2) \<and>
     index h1 ''__root__'' = Some r1 \<and> index h2 ''__root__'' = Some r2 \<and>
     deviceHistogram r1 ''d'' = Some 1 \<and> deviceHistogram r2 ''d'' = Some 1 \<and>
     xlaClusterHistogram r1 ''c'' = Some 2 \<and> xlaClusterHistogram r2 ''c'' = Some 3"
  by (simp add: stats_defs)



subsection \<open>The series detector on the numeric-suffix examples\<close>

lemma split_at_slash:
  assumes "\<forall>c \<in> set xs. c \<noteq> CHR ''/''"
  shows "takeWhile (\<lambda>c. c \<noteq> CHR ''/'') (xs @ CHR ''/'' # zs) = xs"
    and "dropWhile (\<lambda>c. c \<noteq> CHR ''/'') (xs @ CHR ''/'' # zs) = CHR ''/'' # zs"
    and "takeWhile (\<lambda>c. c \<noteq> CHR ''/'') xs = xs"
    and "dropWhile (\<lambda>c. c \<noteq> CHR ''/'') xs = []"
  using assms by (induction xs) auto

lemma leaf_of_under:
  assumes "CHR ''/'' \<notin> set l"
  shows "leaf_of (under par l) = l" and "parent_of (under par l) = par"
proof -
  from assms have a: "\<forall>c \<in> set (rev l). c \<noteq> CHR ''/''" by auto
  have r: "rev (par @ ''/'' @ l) = rev l @ CHR ''/'' # rev par" by simp
  show "leaf_of (under par l) = l"
    unfolding leaf_of_def under_def using split_at_slash[OF a] by (simp only: r if_distrib) simp
  show "parent_of (under par l) = par"
    unfolding parent_of_def under_def using split_at_slash[OF a] by (simp only: r if_distrib) auto
qed


lemma match_suffix_foo:
  "match_suffix ''foo_1'' = Some (''foo'', ''1'')"
  "match_suffix ''foo_2'' = Some (''foo'', ''2'')"
  "match_suffix ''foo_3'' = Some (''foo'', ''3'')"
  "match_suffix ''foo_4'' = Some (''foo'', ''4'')"
  by (simp_all add: match_suffix_def is_digit_def)

lemma to_number_digit:
  "to_number ''1'' = 1" "to_number ''2'' = 2" "to_number ''3'' = 3" "to_number ''4'' = 4"
  by (simp_all add: to_number_def digit_value_def)

lemma isGroup_under: "l \<noteq> [] \<Longrightarrow> isGroup (under par l) = isGroup l"
  by (simp add: isGroup_def under_def)

lemma numeric_foo:
  "numeric_candidate nm (under par ''foo_1'') = (nm ''foo'' [] par None, foo_candidate par ''foo_1'' 1)"
  "numeric_candidate nm (under par ''foo_2'') = (nm ''foo'' [] par None, foo_candidate par ''foo_2'' 2)"
  "numeric_candidate nm (under par ''foo_3'') = (nm ''foo'' [] par None, foo_candidate par ''foo_3'' 3)"
  "numeric_candidate nm (under par ''foo_4'') = (nm ''foo'' [] par None, foo_candidate par ''foo_4'' 4)"
  by (simp_all add: numeric_candidate_def leaf_of_under match_suffix_foo to_number_digit
        foo_candidate_def)


lemma under_eq: "under par l = under par l' \<longleftrightarrow> l = l'"
  by (simp add: under_def)

lemma detect_foo_123:
  "detectSeriesUsingNumericSuffixes nm
     [(o_type, [under par ''foo_1'', under par ''foo_2'', under par ''foo_3''])] =
   [foo_series nm o_type par [(1, ''foo_1''), (2, ''foo_2''), (3, ''foo_3'')]]"
  by (simp add: detectSeriesUsingNumericSuffixes_def numeric_foo series_of_candidates_def
        foo_candidate_def addSeriesToDict_def foo_series_def Let_def setNode_g_def createGraph_def
        under_eq)

lemma detect_foo_124:
  "detectSeriesUsingNumericSuffixes nm
     [(o_type, [under par ''foo_1'', under par ''foo_2'', under par ''foo_4''])] =
   [foo_series nm o_type par [(1, ''foo_1''), (2, ''foo_2'')]]"
  by (simp add: detectSeriesUsingNumericSuffixes_def numeric_foo series_of_candidates_def
        foo_candidate_def addSeriesToDict_def foo_series_def Let_def setNode_g_def createGraph_def
        under_eq)


lemmas series_defs = leaf_container_def createMetanode_def opNode_def clusterNodes_def node_g_def
  metagraph_of_def detectSeriesMethod_def place_series_def update_node_def setNode_def
  absorb_member_def count_compatibility_def increment_def setNode_g_def removeNode_g_def
  createGraph_def foo_series_def createSeriesNode_def under_eq Let_def

lemma group_foo_123:
  assumes "0 < t" and "t \<le> 3" and "o_type \<noteq> []"
    and "c \<notin> {under par ''foo_1'', under par ''foo_2'', under par ''foo_3''}"
    and "nm ''foo'' [] par (Some (1, 3)) \<notin> {c, under par ''foo_1'', under par ''foo_2'', under par ''foo_3''}"
    and "m (nm ''foo'' [] par (Some (1, 3))) = None"
  shows "\<exists>st' S. groupSeries 1 nm t False c
            \<lparr>shier = leaf_container c [under par ''foo_1'', under par ''foo_2'', under par ''foo_3''] o_type,
             seriesNames = Map.empty, smap = m\<rparr> = Some (Inr st') \<and>
          gnodes (metagraph_of (shier st') c) = [nm ''foo'' [] par (Some (1, 3))] \<and>
          index (shier st') (nm ''foo'' [] par (Some (1, 3))) = Some S \<and>
          ntype S = SERIES \<and> ids S = [1, 2, 3] \<and>
          gnodes (metagraph S) = [under par ''foo_1'', under par ''foo_2'', under par ''foo_3'']"
proof -
  let ?names = "[under par ''foo_1'', under par ''foo_2'', under par ''foo_3'']"
  let ?h = "leaf_container c ?names o_type"
  let ?st = "\<lparr>shier = ?h, seriesNames = Map.empty, smap = m\<rparr>"
  have ch: "groupSeries_children 0 nm t False c ?names ?st = Some (Inr ?st)"
    using assms(4) by (auto simp: series_defs)
  have cl: "clusterNodes (metagraph_of ?h c) (index ?h) = Inr [(o_type, ?names)]"
    using assms(3,4) by (auto simp: series_defs)
  have mg: "gnodes (metagraph_of ?h c) = ?names" by (simp add: series_defs)
  show ?thesis
    using assms
    apply (simp add: ch cl mg detectSeriesMethod_def detect_foo_123 del: One_nat_def)
    apply (auto simp: series_defs detect_foo_123)
    done
qed


lemma group_foo_124:
  assumes "0 < t" and "o_type \<noteq> []"
    and "c \<notin> {under par ''foo_1'', under par ''foo_2'', under par ''foo_4''}"
    and "nm ''foo'' [] par (Some (1, 2)) \<notin> {c, under par ''foo_1'', under par ''foo_2'', under par ''foo_4''}"
    and "m (nm ''foo'' [] par (Some (1, 2))) = None"
  shows "\<exists>st' leaf4. groupSeries 1 nm t False c
            \<lparr>shier = leaf_container c [under par ''foo_1'', under par ''foo_2'', under par ''foo_4''] o_type,
             seriesNames = Map.empty, smap = m\<rparr> = Some (Inr st') \<and>
          under par ''foo_4'' \<in> set (gnodes (metagraph_of (shier st') c)) \<and>
          index (shier st') (under par ''foo_4'') = Some leaf4 \<and>
          parentNode leaf4 = Some c \<and> owningSeries leaf4 = None \<and>
          (t \<le> 2 \<longrightarrow>
             gnodes (metagraph_of (shier st') c) = [under par ''foo_4'', nm ''foo'' [] par (Some (1, 2))] \<and>
             (\<exists>S. index (shier st') (nm ''foo'' [] par (Some (1, 2))) = Some S \<and>
                ntype S = SERIES \<and> ids S = [1, 2] \<and>
                gnodes (metagraph S) = [under par ''foo_1'', under par ''foo_2'']))"
proof -
  let ?names = "[under par ''foo_1'', under par ''foo_2'', under par ''foo_4'']"
  let ?h = "leaf_container c ?names o_type"
  let ?st = "\<lparr>shier = ?h, seriesNames = Map.empty, smap = m\<rparr>"
  have ch: "groupSeries_children 0 nm t False c ?names ?st = Some (Inr ?st)"
    using assms(3) by (auto simp: series_defs)
  have cl: "clusterNodes (metagraph_of ?h c) (index ?h) = Inr [(o_type, ?names)]"
    using assms(2,3) by (auto simp: series_defs)
  have mg: "gnodes (metagraph_of ?h c) = ?names" by (simp add: series_defs)
  show ?thesis
  proof (cases "t \<le> 2")
    case True
    with assms show ?thesis
      apply (simp add: ch cl mg detectSeriesMethod_def detect_foo_124 del: One_nat_def)
      apply (auto simp: series_defs detect_foo_124)
      done
  next
    case False
    with assms show ?thesis
      apply (simp add: ch cl mg detectSeriesMethod_def detect_foo_124 del: One_nat_def)
      apply (auto simp: series_defs detect_foo_124)
      done
  qed
qed

lemma sample_names:
  "sample_naming ''foo'' [] [] (Some (1, 3)) = ''foo[1-3]''"
  "sample_naming ''foo'' [] [] (Some (1, 2)) = ''foo[1-2]''"
  by (simp_all add: sample_naming_def under_def show_nat.simps digit_char_def)

lemmas sample_names_Suc = sample_names[unfolded One_nat_def]



subsection \<open>The loop over the detected series\<close>

lemma stamp_idem: "stamp s (stamp s c) = stamp s c"
  by (simp add: stamp_def)

lemma stamp_step:
  "index h n = Some child \<Longrightarrow>
   (if owningSeries child = None \<or> owningSeries child = Some []
    then update_node n (\<lambda>c. c\<lparr>owningSeries := Some s\<rparr>) h else h) = update_node n (stamp s) h"
  by (auto simp: update_node_def stamp_def fun_upd_idem)

lemma metagraph_of_update_other:
  "k \<noteq> m \<Longrightarrow> metagraph_of (update_node k f h) m = metagraph_of h m"
  by (simp add: metagraph_of_def update_node_def)

lemma stamp_all_cons: "stamp_all s rest (update_node n (stamp s) h) = stamp_all s (n # rest) h"
  by (auto simp: stamp_all_def update_node_def fun_eq_iff option.map_comp comp_def stamp_idem
      intro!: Hierarchy.equality)

lemma stamp_members_result:
  assumes "m \<notin> set ms"
    and "\<forall>n \<in> set ms. n \<in> set (gnodes (metagraph_of h m)) \<and> index h n \<noteq> None"
  shows "stamp_members m s ms h = Inr (stamp_all s ms h)"
  using assms
proof (induction ms arbitrary: h)
  case Nil
  then show ?case by (simp add: stamp_all_def)
next
  case (Cons n rest)
  from Cons.prems obtain child where c: "index h n = Some child" by auto
  from Cons.prems have nm: "n \<noteq> m" and mr: "m \<notin> set rest" by auto
  let ?h1 = "update_node n (stamp s) h"
  have mg: "metagraph_of ?h1 m = metagraph_of h m" using nm by (rule metagraph_of_update_other)
  have dom: "index ?h1 k \<noteq> None \<longleftrightarrow> index h k \<noteq> None" for k
    by (simp add: update_node_def)
  have pre: "\<forall>x \<in> set rest. x \<in> set (gnodes (metagraph_of ?h1 m)) \<and> index ?h1 x \<noteq> None"
    using Cons.prems(2) mg dom by simp
  have "stamp_members m s (n # rest) h = stamp_members m s rest ?h1"
    using c Cons.prems(2) stamp_step[OF c, of s] by (simp add: node_g_def)
  also have "\<dots> = Inr (stamp_all s rest ?h1)" using mr pre by (rule Cons.IH)
  also have "stamp_all s rest ?h1 = stamp_all s (n # rest) h" by (rule stamp_all_cons)
  finally show ?case .
qed


lemma move_members_result:
  assumes "distinct ms" and "m \<notin> set ms" and "s \<notin> set ms" and "s \<noteq> m"
    and "index (shier st) s \<noteq> None" and "index (shier st) m \<noteq> None"
    and "\<forall>n \<in> set ms. n \<in> set (gnodes (metagraph_of (shier st) m)) \<and> index (shier st) n \<noteq> None"
  shows "\<exists>st'. move_members m s ms st = Inr st' \<and> moved m s ms st st'"
  using assms
proof (induction ms arbitrary: st)
  case Nil
  then show ?case by (simp add: moved_def)
next
  case (Cons n rest)
  let ?h = "shier st"
  from Cons.prems obtain child where c: "index ?h n = Some child"
    and inm: "n \<in> set (gnodes (metagraph_of ?h m))" by auto
  from Cons.prems obtain S0 where S0: "index ?h s = Some S0" by auto
  from Cons.prems obtain M where M: "index ?h m = Some M" by auto
  from Cons.prems have ne: "n \<noteq> m" "n \<noteq> s" "s \<noteq> m" "n \<notin> set rest" by auto
  let ?h1 = "update_node s (absorb_member child n) ?h"
  let ?h2 = "update_node n (\<lambda>c. c\<lparr>parentNode := Some s\<rparr>) ?h1"
  let ?h3 = "update_node m (\<lambda>x. x\<lparr>metagraph := removeNode_g n (metagraph x)\<rparr>) ?h2"
  let ?st1 = "st\<lparr>shier := ?h3, seriesNames := (seriesNames st)(n \<mapsto> s)\<rparr>"
  have i3: "index ?h3 k =
      (if k = m then Some (M\<lparr>metagraph := removeNode_g n (metagraph M)\<rparr>)
       else if k = n then Some (child\<lparr>parentNode := Some s\<rparr>)
       else if k = s then Some (absorb_member child n S0)
       else index ?h k)" for k
    using c S0 M ne by (simp add: update_node_def)
  have step: "move_members m s (n # rest) st = move_members m s rest ?st1"
    using c inm by (simp add: node_g_def Let_def)
  have mg3: "gnodes (metagraph_of ?h3 m) = filter (\<lambda>x. x \<noteq> n) (gnodes (metagraph_of ?h m))"
    using M by (simp only: metagraph_of_def i3) (simp add: removeNode_g_def)
  have pre: "\<forall>x \<in> set rest. x \<in> set (gnodes (metagraph_of (shier ?st1) m)) \<and> index (shier ?st1) x \<noteq> None"
  proof
    fix x assume x: "x \<in> set rest"
    with Cons.prems(7) have "x \<in> set (gnodes (metagraph_of ?h m))" "index ?h x \<noteq> None" by auto
    moreover from x ne have "x \<noteq> n" by auto
    ultimately show "x \<in> set (gnodes (metagraph_of (shier ?st1) m)) \<and> index (shier ?st1) x \<noteq> None"
      using mg3 by (auto simp: i3)
  qed
  have "\<exists>st'. move_members m s rest ?st1 = Inr st' \<and> moved m s rest ?st1 st'"
  proof (rule Cons.IH)
    show "distinct rest" "m \<notin> set rest" "s \<notin> set rest" "s \<noteq> m" using Cons.prems by auto
    show "index (shier ?st1) s \<noteq> None" "index (shier ?st1) m \<noteq> None" using ne by (simp_all add: i3)
    show "\<forall>x \<in> set rest. x \<in> set (gnodes (metagraph_of (shier ?st1) m)) \<and> index (shier ?st1) x \<noteq> None"
      by (rule pre)
  qed
  then obtain st' where r: "move_members m s rest ?st1 = Inr st'" and mv: "moved m s rest ?st1 st'"
    by blast
  have s3: "set (gnodes (metagraph_of ?h3 s)) = insert n (set (gnodes (metagraph_of ?h s)))"
    using S0 ne by (simp only: metagraph_of_def i3)
      (auto simp: absorb_member_def count_compatibility_def setNode_g_def Let_def split: option.splits)
  have t3: "map_option ntype (index ?h3 s) = map_option ntype (index ?h s)"
    using S0 ne by (simp only: i3)
      (auto simp: absorb_member_def count_compatibility_def Let_def split: option.splits)
  have "moved m s (n # rest) st st'"
    unfolding moved_def
  proof (intro conjI allI impI ballI)
    fix k assume "k \<notin> set (n # rest) \<and> k \<noteq> s \<and> k \<noteq> m"
    with mv show "index (shier st') k = index (shier st) k" by (simp add: moved_def i3)
  next
    fix x assume x: "x \<in> set (n # rest)"
    show "index (shier st') x = map_option (\<lambda>c. c\<lparr>parentNode := Some s\<rparr>) (index ?h x)"
    proof (cases "x = n")
      case True
      with mv ne have "index (shier st') x = index ?h3 n" by (simp add: moved_def)
      with True c ne show ?thesis by (simp add: i3)
    next
      case False
      with x have xr: "x \<in> set rest" by simp
      with mv have "index (shier st') x = map_option (\<lambda>c. c\<lparr>parentNode := Some s\<rparr>) (index ?h3 x)"
        by (simp add: moved_def)
      moreover from xr Cons.prems have "x \<noteq> m" "x \<noteq> s" by auto
      ultimately show ?thesis using False by (simp add: i3)
    qed
  next
    from mv have "gnodes (metagraph_of (shier st') m) =
        filter (\<lambda>x. x \<notin> set rest) (gnodes (metagraph_of ?h3 m))" by (simp add: moved_def)
    then show "gnodes (metagraph_of (shier st') m) =
        filter (\<lambda>x. x \<notin> set (n # rest)) (gnodes (metagraph_of ?h m))"
      by (simp add: mg3 conj_commute)
  next
    from mv t3 show "map_option ntype (index (shier st') s) = map_option ntype (index ?h s)"
      by (simp add: moved_def)
  next
    from mv s3 show "set (gnodes (metagraph_of (shier st') s)) =
        set (gnodes (metagraph_of ?h s)) \<union> set (n # rest)" by (auto simp: moved_def)
  next
    from mv show "index (shier st') m \<noteq> None" "index (shier st') s \<noteq> None" by (simp_all add: moved_def)
  next
    from mv show "seriesNames st' = (\<lambda>k. if k \<in> set (n # rest) then Some s else seriesNames st k)"
      by (auto simp: moved_def fun_eq_iff)
  next
    from mv show "smap st' = smap st" by (simp add: moved_def)
  qed
  with step r show ?case by auto
qed


lemma index_stamp_all:
  "index (stamp_all s ms h) k = (if k \<in> set ms then map_option (stamp s) (index h k) else index h k)"
  by (simp add: stamp_all_def)

lemma metagraph_of_stamp_all: "m \<notin> set ms \<Longrightarrow> metagraph_of (stamp_all s ms h) m = metagraph_of h m"
  by (simp add: metagraph_of_def index_stamp_all)

text \<open>
  C5.  The body of the loop over the detected series, for a series whose members are
  distinct children of the metanode and whose name is new among them: it returns
  without an error; a series with fewer members than the threshold and no entry in the
  series map gets the entry \<open>UNGROUP\<close>; a series whose entry is \<open>UNGROUP\<close> is not
  spliced in (the metagraph of the metanode, the index outside the members and
  \<open>seriesNames\<close> stay as they were, each member keeps its parent and is stamped with
  \<open>owningSeries\<close> unless it had one); any other series is spliced in (each member
  leaves the metagraph of the metanode, is in the metagraph of the series, has the
  series as parent and is entered in \<open>seriesNames\<close>; the series is a child of the
  metanode and is in the index).
\<close>

theorem place_series_ungroups_or_splices:
  assumes "name seriesNode = s" and "distinct (gnodes (metagraph seriesNode))"
    and "m \<notin> set (gnodes (metagraph seriesNode))" and "s \<notin> set (gnodes (metagraph seriesNode))"
    and "s \<noteq> m" and "index (shier st) m \<noteq> None"
    and "\<forall>n \<in> set (gnodes (metagraph seriesNode)).
           n \<in> set (gnodes (metagraph_of (shier st) m)) \<and> index (shier st) n \<noteq> None"
  shows "\<exists>st'. place_series t m (s, seriesNode) st = Inr st' \<and>
           (int (length (gnodes (metagraph seriesNode))) < t \<and> smap st s = None \<longrightarrow>
              smap st' s = Some UNGROUP) \<and>
           (\<forall>k. k \<noteq> s \<longrightarrow> smap st' k = smap st k) \<and>
           (\<not> (int (length (gnodes (metagraph seriesNode))) < t \<and> smap st s = None) \<longrightarrow>
              smap st' s = smap st s) \<and>
           (smap st' s = Some UNGROUP \<longrightarrow> stays m s (gnodes (metagraph seriesNode)) st st') \<and>
           (smap st' s \<noteq> Some UNGROUP \<longrightarrow> spliced m s seriesNode st st')"
proof -
  let ?ms = "gnodes (metagraph seriesNode)"
  let ?h = "shier st"
  let ?h1 = "stamp_all s ?ms ?h"
  let ?map1 = "if int (length ?ms) < t \<and> smap st s = None then (smap st)(s \<mapsto> UNGROUP) else smap st"
  let ?st1 = "st\<lparr>shier := ?h1, smap := ?map1\<rparr>"
  have sm: "stamp_members m s ?ms ?h = Inr ?h1"
    using assms(3,7) by (rule stamp_members_result)
  have mg1: "metagraph_of ?h1 m = metagraph_of ?h m" using assms(3) by (rule metagraph_of_stamp_all)
  show ?thesis
  proof (cases "?map1 s = Some UNGROUP")
    case True
    then have r: "place_series t m (s, seriesNode) st = Inr ?st1"
      using assms(1) by (auto simp: place_series_def sm Let_def split: if_splits)
    have "stays m s ?ms st ?st1"
      by (simp add: stays_def mg1 index_stamp_all)
    with r True show ?thesis by auto
  next
    case False
    let ?h2 = "setNode s seriesNode ?h1"
    let ?h3 = "update_node m (\<lambda>x. x\<lparr>metagraph := setNode_g s (metagraph x)\<rparr>) ?h2"
    let ?st3 = "?st1\<lparr>shier := ?h3\<rparr>"
    from False have r: "place_series t m (s, seriesNode) st = move_members m s ?ms ?st3"
      using assms(1) by (auto simp: place_series_def sm Let_def split: if_splits)
    from assms(6) obtain M where M: "index ?h m = Some M" by auto
    have i3: "index ?h3 k =
        (if k = m then Some (M\<lparr>metagraph := setNode_g s (metagraph M)\<rparr>)
         else if k = s then Some seriesNode
         else if k \<in> set ?ms then map_option (stamp s) (index ?h k)
         else index ?h k)" for k
      using M assms(3,5) by (auto simp: update_node_def setNode_def index_stamp_all)
    have mg3: "gnodes (metagraph_of ?h3 m) = gnodes (setNode_g s (metagraph_of ?h m))"
      using M by (simp only: metagraph_of_def i3) simp
    have pre: "\<forall>n \<in> set ?ms. n \<in> set (gnodes (metagraph_of (shier ?st3) m)) \<and> index (shier ?st3) n \<noteq> None"
    proof
      fix n assume n: "n \<in> set ?ms"
      with assms(7) have "n \<in> set (gnodes (metagraph_of ?h m))" "index ?h n \<noteq> None" by auto
      moreover from n assms(3,4) have "n \<noteq> m" "n \<noteq> s" by auto
      ultimately have a: "n \<in> set (gnodes (metagraph_of ?h3 m))" and b: "index ?h3 n \<noteq> None"
        unfolding mg3 i3 using n by (auto simp: setNode_g_def)
      then show "n \<in> set (gnodes (metagraph_of (shier ?st3) m)) \<and> index (shier ?st3) n \<noteq> None"
        by simp
    qed
    have "\<exists>st'. move_members m s ?ms ?st3 = Inr st' \<and> moved m s ?ms ?st3 st'"
    proof (rule move_members_result)
      show "distinct ?ms" "m \<notin> set ?ms" "s \<notin> set ?ms" "s \<noteq> m" using assms by auto
      have "index ?h3 s \<noteq> None" "index ?h3 m \<noteq> None"
        unfolding i3 using assms(5) by simp_all
      then show "index (shier ?st3) s \<noteq> None" "index (shier ?st3) m \<noteq> None"
        by simp_all
      show "\<forall>n \<in> set ?ms. n \<in> set (gnodes (metagraph_of (shier ?st3) m)) \<and> index (shier ?st3) n \<noteq> None"
        by (rule pre)
    qed
    then obtain st' where mm: "move_members m s ?ms ?st3 = Inr st'" and mv: "moved m s ?ms ?st3 st'"
      by blast
    from mv have sm': "smap st' = ?map1" by (simp add: moved_def)
    have "spliced m s seriesNode st st'"
      unfolding spliced_def
    proof (intro conjI ballI)
      fix n assume n: "n \<in> set ?ms"
      from n assms(3,4) have ne: "n \<noteq> m" "n \<noteq> s" by auto
      from mv have "gnodes (metagraph_of (shier st') m) =
          filter (\<lambda>x. x \<notin> set ?ms) (gnodes (metagraph_of ?h3 m))" by (simp add: moved_def)
      with n show "n \<notin> set (gnodes (metagraph_of (shier st') m))" by simp
      from mv n show "n \<in> set (gnodes (metagraph_of (shier st') s))" by (simp add: moved_def)
      from mv n have "index (shier st') n = map_option (\<lambda>c. c\<lparr>parentNode := Some s\<rparr>) (index ?h3 n)"
        by (simp add: moved_def)
      then have "index (shier st') n = map_option (\<lambda>c. c\<lparr>parentNode := Some s\<rparr>)
          (map_option (stamp s) (index ?h n))"
        unfolding i3 using n ne by simp
      then show "index (shier st') n =
          map_option (\<lambda>c. (stamp s c)\<lparr>parentNode := Some s\<rparr>) (index ?h n)"
        by (simp add: option.map_comp comp_def)
      from mv n show "seriesNames st' n = Some s" by (simp add: moved_def)
    next
      from mv have "gnodes (metagraph_of (shier st') m) =
          filter (\<lambda>x. x \<notin> set ?ms) (gnodes (metagraph_of ?h3 m))" by (simp add: moved_def)
      then have "gnodes (metagraph_of (shier st') m) =
          filter (\<lambda>x. x \<notin> set ?ms) (gnodes (setNode_g s (metagraph_of ?h m)))"
        unfolding mg3 by simp
      with assms(4) show "s \<in> set (gnodes (metagraph_of (shier st') m))"
        by (auto simp: setNode_g_def)
    next
      from mv have "map_option ntype (index (shier st') s) = map_option ntype (index ?h3 s)"
        by (simp add: moved_def)
      then show "map_option ntype (index (shier st') s) = Some (ntype seriesNode)"
        unfolding i3 using assms(5) by simp
    qed
    with r mm sm' False show ?thesis by auto
  qed
qed



subsection \<open>The numeric-suffix examples and the series task\<close>

text \<open>
  C4.  Under the numeric-suffix policy, for any op type, parent path and naming
  function: a cluster with the members foo_1, foo_2, foo_3 gives exactly one series,
  with the ids 1, 2, 3 and these three members; a cluster with the members foo_1, foo_2,
  foo_4 gives exactly one series, with the ids 1, 2 and the members foo_1 and foo_2.
  In a container with the first three children and a threshold between 1 and 3,
  groupSeries leaves the series node as the only child, holding the ids 1 to 3.  In a
  container with foo_1, foo_2, foo_4, groupSeries leaves foo_4 a child of the container
  with no owning series, and for a threshold of 1 or 2 the children are foo_4 and the
  series node with the ids 1 to 2.  (The series names are taken to be new names, and
  the series map to hold no entry for them.)
\<close>

theorem numeric_suffix_policy_examples:
  assumes "0 < t" and "o_type \<noteq> []"
    and "c \<notin> {under par ''foo_1'', under par ''foo_2'', under par ''foo_3'', under par ''foo_4''}"
    and "nm ''foo'' [] par (Some (1, 3)) \<notin> {c, under par ''foo_1'', under par ''foo_2'', under par ''foo_3''}"
    and "nm ''foo'' [] par (Some (1, 2)) \<notin> {c, under par ''foo_1'', under par ''foo_2'', under par ''foo_4''}"
    and "m (nm ''foo'' [] par (Some (1, 3))) = None" and "m (nm ''foo'' [] par (Some (1, 2))) = None"
  shows "detectSeriesUsingNumericSuffixes nm
           [(o_type, [under par ''foo_1'', under par ''foo_2'', under par ''foo_3''])] =
         [foo_series nm o_type par [(1, ''foo_1''), (2, ''foo_2''), (3, ''foo_3'')]] \<and>
         detectSeriesUsingNumericSuffixes nm
           [(o_type, [under par ''foo_1'', under par ''foo_2'', under par ''foo_4''])] =
         [foo_series nm o_type par [(1, ''foo_1''), (2, ''foo_2'')]] \<and>
         (t \<le> 3 \<longrightarrow>
            (\<exists>st' S. groupSeries 1 nm t False c
                \<lparr>shier = leaf_container c [under par ''foo_1'', under par ''foo_2'', under par ''foo_3''] o_type,
                 seriesNames = Map.empty, smap = m\<rparr> = Some (Inr st') \<and>
              gnodes (metagraph_of (shier st') c) = [nm ''foo'' [] par (Some (1, 3))] \<and>
              index (shier st') (nm ''foo'' [] par (Some (1, 3))) = Some S \<and>
              ntype S = SERIES \<and> ids S = [1, 2, 3] \<and>
              gnodes (metagraph S) = [under par ''foo_1'', under par ''foo_2'', under par ''foo_3''])) \<and>
         (\<exists>st' leaf4. groupSeries 1 nm t False c
                \<lparr>shier = leaf_container c [under par ''foo_1'', under par ''foo_2'', under par ''foo_4''] o_type,
                 seriesNames = Map.empty, smap = m\<rparr> = Some (Inr st') \<and>
              under par ''foo_4'' \<in> set (gnodes (metagraph_of (shier st') c)) \<and>
              index (shier st') (under par ''foo_4'') = Some leaf4 \<and>
              parentNode leaf4 = Some c \<and> owningSeries leaf4 = None \<and>
              (t \<le> 2 \<longrightarrow>
                 gnodes (metagraph_of (shier st') c) = [under par ''foo_4'', nm ''foo'' [] par (Some (1, 2))] \<and>
                 (\<exists>S. index (shier st') (nm ''foo'' [] par (Some (1, 2))) = Some S \<and>
                    ntype S = SERIES \<and> ids S = [1, 2] \<and>
                    gnodes (metagraph S) = [under par ''foo_1'', under par ''foo_2''])))"
proof (intro conjI impI)
  show "detectSeriesUsingNumericSuffixes nm
           [(o_type, [under par ''foo_1'', under par ''foo_2'', under par ''foo_3''])] =
         [foo_series nm o_type par [(1, ''foo_1''), (2, ''foo_2''), (3, ''foo_3'')]]"
    by (rule detect_foo_123)
  show "detectSeriesUsingNumericSuffixes nm
           [(o_type, [under par ''foo_1'', under par ''foo_2'', under par ''foo_4''])] =
         [foo_series nm o_type par [(1, ''foo_1''), (2, ''foo_2'')]]"
    by (rule detect_foo_124)
next
  assume "t \<le> 3"
  with assms show "\<exists>st' S. groupSeries 1 nm t False c
                \<lparr>shier = leaf_container c [under par ''foo_1'', under par ''foo_2'', under par ''foo_3''] o_type,
                 seriesNames = Map.empty, smap = m\<rparr> = Some (Inr st') \<and>
              gnodes (metagraph_of (shier st') c) = [nm ''foo'' [] par (Some (1, 3))] \<and>
              index (shier st') (nm ''foo'' [] par (Some (1, 3))) = Some S \<and>
              ntype S = SERIES \<and> ids S = [1, 2, 3] \<and>
              gnodes (metagraph S) = [under par ''foo_1'', under par ''foo_2'', under par ''foo_3'']"
    by (intro group_foo_123) auto
next
  from assms show "\<exists>st' leaf4. groupSeries 1 nm t False c
                \<lparr>shier = leaf_container c [under par ''foo_1'', under par ''foo_2'', under par ''foo_4''] o_type,
                 seriesNames = Map.empty, smap = m\<rparr> = Some (Inr st') \<and>
              under par ''foo_4'' \<in> set (gnodes (metagraph_of (shier st') c)) \<and>
              index (shier st') (under par ''foo_4'') = Some leaf4 \<and>
              parentNode leaf4 = Some c \<and> owningSeries leaf4 = None \<and>
              (t \<le> 2 \<longrightarrow>
                 gnodes (metagraph_of (shier st') c) = [under par ''foo_4'', nm ''foo'' [] par (Some (1, 2))] \<and>
                 (\<exists>S. index (shier st') (nm ''foo'' [] par (Some (1, 2))) = Some S \<and>
                    ntype S = SERIES \<and> ids S = [1, 2] \<and>
                    gnodes (metagraph S) = [under par ''foo_1'', under par ''foo_2'']))"
    by (intro group_foo_124) auto
qed

theorem numeric_suffix_policy_examples_witness:
  "(\<exists>st' S. groupSeries 1 sample_naming 2 False ''__root__''
        \<lparr>shier = leaf_container ''__root__'' [''foo_1'', ''foo_2'', ''foo_3''] ''Add'',
         seriesNames = Map.empty, smap = Map.empty\<rparr> = Some (Inr st') \<and>
      gnodes (metagraph_of (shier st') ''__root__'') = [''foo[1-3]''] \<and>
      index (shier st') ''foo[1-3]'' = Some S \<and> ids S = [1, 2, 3] \<and>
      gnodes (metagraph S) = [''foo_1'', ''foo_2'', ''foo_3'']) \<and>
   (\<exists>st' S. groupSeries 1 sample_naming 2 False ''__root__''
        \<lparr>shier = leaf_container ''__root__'' [''foo_1'', ''foo_2'', ''foo_4''] ''Add'',
         seriesNames = Map.empty, smap = Map.empty\<rparr> = Some (Inr st') \<and>
      gnodes (metagraph_of (shier st') ''__root__'') = [''foo_4'', ''foo[1-2]''] \<and>
      index (shier st') ''foo[1-2]'' = Some S \<and> ids S = [1, 2] \<and>
      gnodes (metagraph S) = [''foo_1'', ''foo_2''])"
proof -
  have u: "under [] l = l" for l by (simp add: under_def)
  have hyps: "(0::int) < 2" "''Add'' \<noteq> []"
    "''__root__'' \<notin> {under [] ''foo_1'', under [] ''foo_2'', under [] ''foo_3'', under [] ''foo_4''}"
    "sample_naming ''foo'' [] [] (Some (1, 3)) \<notin>
       {''__root__'', under [] ''foo_1'', under [] ''foo_2'', under [] ''foo_3''}"
    "sample_naming ''foo'' [] [] (Some (1, 2)) \<notin>
       {''__root__'', under [] ''foo_1'', under [] ''foo_2'', under [] ''foo_4''}"
    "Map.empty (sample_naming ''foo'' [] [] (Some (1, 3))) = None"
    "Map.empty (sample_naming ''foo'' [] [] (Some (1, 2))) = None"
    by (simp_all add: u sample_names_Suc)
  from numeric_suffix_policy_examples[where t = 2 and o_type = "''Add''" and c = "''__root__''"
      and par = "[]" and nm = sample_naming and m = Map.empty, OF hyps]
  show ?thesis by (simp add: u sample_names_Suc) blast
qed

lemma S123_entry:
  "foo_series sample_naming ''Add'' [] [(1, ''foo_1''), (2, ''foo_2''), (3, ''foo_3'')] = (''foo[1-3]'', S123)"
  by (simp add: foo_series_def sample_names_Suc S123_def)

lemma S123_members: "gnodes (metagraph S123) = [''foo_1'', ''foo_2'', ''foo_3'']"
  by (simp add: foo_series_def under_def S123_def)

lemma st123_children: "gnodes (metagraph_of (shier st123) ''__root__'') = [''foo_1'', ''foo_2'', ''foo_3'']"
  by (simp add: metagraph_of_def leaf_container_def createMetanode_def st123_def)

lemma S123_fits:
  "name S123 = ''foo[1-3]''" "distinct (gnodes (metagraph S123))"
  "''__root__'' \<notin> set (gnodes (metagraph S123))" "''foo[1-3]'' \<notin> set (gnodes (metagraph S123))"
  "''foo[1-3]'' \<noteq> ''__root__''" "index (shier st123) ''__root__'' \<noteq> None"
  "\<forall>n \<in> set (gnodes (metagraph S123)).
     n \<in> set (gnodes (metagraph_of (shier st123) ''__root__'')) \<and> index (shier st123) n \<noteq> None"
  unfolding S123_members st123_children
  by (simp_all add: foo_series_def sample_names_Suc createSeriesNode_def leaf_container_def
        S123_def st123_def)

lemma st123_no_entry: "smap st123 ''foo[1-3]'' = None"
  by (simp add: st123_def)

theorem place_series_ungroups_or_splices_witness:
  "(\<exists>st'. place_series 5 ''__root__'' (''foo[1-3]'', S123) st123 = Inr st' \<and>
      smap st' ''foo[1-3]'' = Some UNGROUP \<and>
      gnodes (metagraph_of (shier st') ''__root__'') = [''foo_1'', ''foo_2'', ''foo_3'']) \<and>
   (\<exists>st'. place_series 3 ''__root__'' (''foo[1-3]'', S123) st123 = Inr st' \<and>
      smap st' ''foo[1-3]'' = None \<and>
      ''foo[1-3]'' \<in> set (gnodes (metagraph_of (shier st') ''__root__'')) \<and>
      ''foo_1'' \<notin> set (gnodes (metagraph_of (shier st') ''__root__'')))"
proof
  from place_series_ungroups_or_splices[OF S123_fits, of 5]
  obtain st5 where p: "place_series 5 ''__root__'' (''foo[1-3]'', S123) st123 = Inr st5 \<and>
           (int (length (gnodes (metagraph S123))) < 5 \<and> smap st123 ''foo[1-3]'' = None \<longrightarrow>
              smap st5 ''foo[1-3]'' = Some UNGROUP) \<and>
           (\<forall>k. k \<noteq> ''foo[1-3]'' \<longrightarrow> smap st5 k = smap st123 k) \<and>
           (\<not> (int (length (gnodes (metagraph S123))) < 5 \<and> smap st123 ''foo[1-3]'' = None) \<longrightarrow>
              smap st5 ''foo[1-3]'' = smap st123 ''foo[1-3]'') \<and>
           (smap st5 ''foo[1-3]'' = Some UNGROUP \<longrightarrow>
              stays ''__root__'' ''foo[1-3]'' (gnodes (metagraph S123)) st123 st5) \<and>
           (smap st5 ''foo[1-3]'' \<noteq> Some UNGROUP \<longrightarrow>
              spliced ''__root__'' ''foo[1-3]'' S123 st123 st5)" ..
  from p have u5: "smap st5 ''foo[1-3]'' = Some UNGROUP"
    using st123_no_entry S123_members by simp
  with p have "stays ''__root__'' ''foo[1-3]'' (gnodes (metagraph S123)) st123 st5" by simp
  then have "gnodes (metagraph_of (shier st5) ''__root__'') = [''foo_1'', ''foo_2'', ''foo_3'']"
    using st123_children by (simp add: stays_def)
  with p u5 show "\<exists>st'. place_series 5 ''__root__'' (''foo[1-3]'', S123) st123 = Inr st' \<and>
      smap st' ''foo[1-3]'' = Some UNGROUP \<and>
      gnodes (metagraph_of (shier st') ''__root__'') = [''foo_1'', ''foo_2'', ''foo_3'']" by blast
next
  from place_series_ungroups_or_splices[OF S123_fits, of 3]
  obtain st3 where p: "place_series 3 ''__root__'' (''foo[1-3]'', S123) st123 = Inr st3 \<and>
           (int (length (gnodes (metagraph S123))) < 3 \<and> smap st123 ''foo[1-3]'' = None \<longrightarrow>
              smap st3 ''foo[1-3]'' = Some UNGROUP) \<and>
           (\<forall>k. k \<noteq> ''foo[1-3]'' \<longrightarrow> smap st3 k = smap st123 k) \<and>
           (\<not> (int (length (gnodes (metagraph S123))) < 3 \<and> smap st123 ''foo[1-3]'' = None) \<longrightarrow>
              smap st3 ''foo[1-3]'' = smap st123 ''foo[1-3]'') \<and>
           (smap st3 ''foo[1-3]'' = Some UNGROUP \<longrightarrow>
              stays ''__root__'' ''foo[1-3]'' (gnodes (metagraph S123)) st123 st3) \<and>
           (smap st3 ''foo[1-3]'' \<noteq> Some UNGROUP \<longrightarrow>
              spliced ''__root__'' ''foo[1-3]'' S123 st123 st3)" ..
  from p have n3: "smap st3 ''foo[1-3]'' = None"
    using st123_no_entry S123_members by simp
  with p have sp: "spliced ''__root__'' ''foo[1-3]'' S123 st123 st3" by simp
  then have q: "\<forall>n \<in> set (gnodes (metagraph S123)).
        n \<notin> set (gnodes (metagraph_of (shier st3) ''__root__''))"
    and r: "''foo[1-3]'' \<in> set (gnodes (metagraph_of (shier st3) ''__root__''))"
    unfolding spliced_def by blast+
  from q have "''foo_1'' \<notin> set (gnodes (metagraph_of (shier st3) ''__root__''))"
    unfolding S123_members by simp
  with p n3 r show "\<exists>st'. place_series 3 ''__root__'' (''foo[1-3]'', S123) st123 = Inr st' \<and>
      smap st' ''foo[1-3]'' = None \<and>
      ''foo[1-3]'' \<in> set (gnodes (metagraph_of (shier st') ''__root__'')) \<and>
      ''foo_1'' \<notin> set (gnodes (metagraph_of (shier st') ''__root__''))" by blast
qed

text \<open>
  C10.  The second task of \<open>build\<close> with a \<open>seriesNodeMinSize\<close> of 0 or less returns the
  hierarchy as it received it, so no SeriesNode is added to the index and no parent
  reference changes, and it leaves \<open>seriesNames\<close> and the series map unchanged.
\<close>

theorem detection_skipped_for_nonpositive_min_size:
  assumes "seriesNodeMinSize params \<le> 0"
  shows "detectSeriesTask fuel nm params h names =
           Some (Inr \<lparr>shier = h, seriesNames = names, smap = seriesMap params\<rparr>)"
  using assms by (simp add: detectSeriesTask_def)


theorem detection_skipped_for_nonpositive_min_size_witness:
  "detectSeriesTask 1 sample_naming
     \<lparr>verifyTemplate = True, seriesNodeMinSize = 0, seriesMap = Map.empty,
      rankDirection = ''BT'', useGeneralizedSeriesPatterns = False\<rparr>
     (leaf_container ''__root__'' [''foo_1'', ''foo_2'', ''foo_3''] ''Add'') Map.empty =
   Some (Inr \<lparr>shier = leaf_container ''__root__'' [''foo_1'', ''foo_2'', ''foo_3''] ''Add'',
               seriesNames = Map.empty, smap = Map.empty\<rparr>)"
  using detection_skipped_for_nonpositive_min_size[of
      "\<lparr>verifyTemplate = True, seriesNodeMinSize = 0, seriesMap = Map.empty,
        rankDirection = ''BT'', useGeneralizedSeriesPatterns = False\<rparr>"
      1 sample_naming "leaf_container ''__root__'' [''foo_1'', ''foo_2'', ''foo_3''] ''Add''" Map.empty]
  by simp



end
